theory Spec2Isabelle
  imports
    Main
    "HOL-Library.Sublist"
    "HOL-Library.Char_ord"
    "HOL-Library.List_Lexorder"
    "HOL-Library.Multiset"
begin

section \<open>Go strings\<close>

text \<open>
  A Go string is a sequence of bytes, here a \<^typ>\<open>string\<close>. Comparison with \<open><\<close> is
  bytewise lexicographic, as the order of \<open>HOL-Library.List_Lexorder\<close> over the byte
  order of \<open>HOL-Library.Char_ord\<close> is.
\<close>

subsection \<open>strings.TrimSpace\<close>

text \<open>
  \<open>strings.TrimSpace\<close> removes leading and trailing white space as \<open>unicode.IsSpace\<close>
  defines it: the six ASCII characters of \<open>asciiSpace\<close>, and the code points U+0085,
  U+00A0, U+1680, U+2000 to U+200A, U+2028, U+2029, U+202F, U+205F and U+3000, which are
  read from the string as their (shortest) UTF-8 encodings.
\<close>

definition asciiSpace :: "char \<Rightarrow> bool" where
  "asciiSpace c \<longleftrightarrow>
     c = CHR 0x09 \<or> c = CHR 0x0A \<or> c = CHR 0x0B \<or> c = CHR 0x0C \<or> c = CHR 0x0D \<or> c = CHR 0x20"

definition unicode_spaces :: "string list" where
  "unicode_spaces =
     [[CHR 0xC2, CHR 0x85], [CHR 0xC2, CHR 0xA0], [CHR 0xE1, CHR 0x9A, CHR 0x80],
      [CHR 0xE2, CHR 0x80, CHR 0x80], [CHR 0xE2, CHR 0x80, CHR 0x81],
      [CHR 0xE2, CHR 0x80, CHR 0x82], [CHR 0xE2, CHR 0x80, CHR 0x83],
      [CHR 0xE2, CHR 0x80, CHR 0x84], [CHR 0xE2, CHR 0x80, CHR 0x85],
      [CHR 0xE2, CHR 0x80, CHR 0x86], [CHR 0xE2, CHR 0x80, CHR 0x87],
      [CHR 0xE2, CHR 0x80, CHR 0x88], [CHR 0xE2, CHR 0x80, CHR 0x89],
      [CHR 0xE2, CHR 0x80, CHR 0x8A], [CHR 0xE2, CHR 0x80, CHR 0xA8],
      [CHR 0xE2, CHR 0x80, CHR 0xA9], [CHR 0xE2, CHR 0x80, CHR 0xAF],
      [CHR 0xE2, CHR 0x81, CHR 0x9F], [CHR 0xE3, CHR 0x80, CHR 0x80]]"

text \<open>All white space runes, as their encodings.\<close>

definition white_space :: "string list" where
  "white_space =
     [[CHR 0x09], [CHR 0x0A], [CHR 0x0B], [CHR 0x0C], [CHR 0x0D], [CHR 0x20]] @ unicode_spaces"

text \<open>The width in bytes of the white space rune a string starts with, 0 when it starts
  with none; \<open>rs\<close> are the encodings of the runes beyond ASCII.\<close>

definition space_width :: "string list \<Rightarrow> string \<Rightarrow> nat" where
  "space_width rs s =
     (case s of
        [] \<Rightarrow> 0
      | c # _ \<Rightarrow>
          if asciiSpace c then 1
          else (case find (\<lambda>r. prefix r s) rs of Some r \<Rightarrow> length r | None \<Rightarrow> 0))"

function trim_left :: "string list \<Rightarrow> string \<Rightarrow> string" where
  "trim_left rs s =
     (if space_width rs s = 0 then s else trim_left rs (drop (space_width rs s) s))"
  by pat_completeness auto
termination
  by (relation "measure (\<lambda>(rs, s). length s)") (auto simp: space_width_def split: list.splits)

declare trim_left.simps [simp del]

text \<open>Trailing white space is found rune by rune from the end; on the reversed string
  that is the same search with each encoding reversed.\<close>

definition TrimLeftSpace :: "string \<Rightarrow> string" where
  "TrimLeftSpace s = trim_left unicode_spaces s"

definition TrimRightSpace :: "string \<Rightarrow> string" where
  "TrimRightSpace s = rev (trim_left (map rev unicode_spaces) (rev s))"

definition TrimSpace :: "string \<Rightarrow> string" where
  "TrimSpace s = TrimRightSpace (TrimLeftSpace s)"

subsection \<open>strings.ToLower, Contains, TrimPrefix, Trim, Split\<close>

definition isASCII :: "string \<Rightarrow> bool" where
  "isASCII s \<longleftrightarrow> list_all (\<lambda>c. c < CHR 0x80) s"

definition lower_byte :: "char \<Rightarrow> char" where
  "lower_byte c = (if CHR ''A'' \<le> c \<and> c \<le> CHR ''Z'' then char_of (of_char c + (32::nat)) else c)"

text \<open>
  \<open>strings.ToLower\<close> maps the letters \<open>A\<close> to \<open>Z\<close> of an all-ASCII string to lower
  case byte by byte. A string with a byte beyond ASCII goes through
  \<open>strings.Map(unicode.ToLower, s)\<close>, whose Unicode tables are the Go library's: that
  mapping is the parameter \<open>ul\<close>.
\<close>

definition ToLower :: "(string \<Rightarrow> string) \<Rightarrow> string \<Rightarrow> string" where
  "ToLower ul s = (if isASCII s then map lower_byte s else ul s)"

fun Contains :: "string \<Rightarrow> string \<Rightarrow> bool" where
  "Contains [] substr = (substr = [])"
| "Contains (c # cs) substr = (prefix substr (c # cs) \<or> Contains cs substr)"

definition TrimPrefix :: "string \<Rightarrow> string \<Rightarrow> string" where
  "TrimPrefix s p = (if prefix p s then drop (length p) s else s)"

text \<open>\<open>strings.Trim(s, cutset)\<close> for a cutset of one ASCII character \<open>c\<close>.\<close>

definition Trim :: "string \<Rightarrow> char \<Rightarrow> string" where
  "Trim s c = rev (dropWhile (\<lambda>x. x = c) (rev (dropWhile (\<lambda>x. x = c) s)))"

text \<open>\<open>strings.Split(s, sep)\<close> for a separator of one byte \<open>c\<close>: the pieces between the
  separators, one piece (the empty string) for the empty string.\<close>

fun Split :: "string \<Rightarrow> char \<Rightarrow> string list" where
  "Split [] c = [[]]"
| "Split (x # xs) c =
     (if x = c then [] # Split xs c
      else (case Split xs c of [] \<Rightarrow> [[x]] | p # ps \<Rightarrow> (x # p) # ps))"

section \<open>strconv\<close>

definition digit_of :: "char \<Rightarrow> nat option" where
  "digit_of c =
     (if CHR ''0'' \<le> c \<and> c \<le> CHR ''9'' then Some (of_char c - (48::nat)) else None)"

text \<open>The value of a string of decimal digits, \<open>None\<close> at the first other byte
  (\<open>strconv.ParseUint\<close> in base 10 accepts no underscore and no letter).\<close>

fun parse_digits :: "nat \<Rightarrow> string \<Rightarrow> nat option" where
  "parse_digits n [] = Some n"
| "parse_digits n (c # cs) =
     (case digit_of c of None \<Rightarrow> None | Some d \<Rightarrow> parse_digits (10 * n + d) cs)"

text \<open>
  \<open>strconv.ParseInt(s, 10, 64)\<close>: an optional sign, then at least one digit; a value
  outside the range of \<open>int64\<close> is an error. \<open>None\<close> is any error (the handlers only
  test \<open>err != nil\<close>).
\<close>

definition ParseInt :: "string \<Rightarrow> int option" where
  "ParseInt s =
     (case s of
        [] \<Rightarrow> None
      | c # cs \<Rightarrow>
          (let neg = (c = CHR ''-'');
               ds = (if c = CHR ''+'' \<or> c = CHR ''-'' then cs else s)
           in if ds = [] then None
              else (case parse_digits 0 ds of
                      None \<Rightarrow> None
                    | Some un \<Rightarrow>
                        if \<not> neg \<and> un \<ge> 2 ^ 63 then None
                        else if neg \<and> un > 2 ^ 63 then None
                        else Some (if neg then - int un else int un))))"

definition digit_char :: "nat \<Rightarrow> char" where
  "digit_char d = ''0123456789'' ! d"

function dec_digits :: "nat \<Rightarrow> string" where
  "dec_digits n =
     (if n < 10 then [digit_char n] else dec_digits (n div 10) @ [digit_char (n mod 10)])"
  by pat_completeness auto
termination
  by (relation "measure (\<lambda>n. n)") auto

declare dec_digits.simps [simp del]

text \<open>\<open>strconv.FormatInt(i, 10)\<close>.\<close>

definition FormatInt :: "int \<Rightarrow> string" where
  "FormatInt i = (if i < 0 then CHR ''-'' # dec_digits (nat (- i)) else dec_digits (nat i))"

section \<open>The SQLite store\<close>

text \<open>
  The two tables of \<open>ensureSchema\<close>. A table is the list of its rows in the order a
  \<open>SELECT\<close> without \<open>ORDER BY\<close> returns them; no theorem below depends on that order.
  \<open>AUTOINCREMENT\<close> gives a new row one more than the largest id the table ever held,
  which SQLite keeps in \<open>sqlite_sequence\<close>: the two \<open>_seq\<close> fields. Ids are integers
  without a bound: the sequences start at 0 and grow by one per insert, so the end of
  \<open>int64\<close> is out of reach of this program.
\<close>

record category_row =
  cat_id :: int
  cat_name :: string

record link_row =
  link_id :: int
  link_name :: string
  link_url :: string
  link_category_id :: int

record store =
  categories :: "category_row list"
  links :: "link_row list"
  categories_seq :: int
  links_seq :: int

text \<open>
  What lies outside the program's text: which calls into the database and the template
  fail for a reason of their own (a timeout, a cancelled request, an I/O error), with the
  error's message; the Unicode lower-case mapping of the Go library; and the capacity the
  Go runtime gives a slice that \<open>append\<close> has to reallocate.
\<close>

datatype call =
  BeginTx | DeleteLinksOfCategory | DeleteCategory | CommitTx
  | InsertCategory | InsertLink | DeleteLink | UpdateLink
  | QueryCategories | QueryLinks | ExecuteTemplate

record env =
  fault :: "call \<Rightarrow> string option"
  unicode_lower :: "string \<Rightarrow> string"
  growslice :: "nat \<Rightarrow> nat"

text \<open>
  The \<open>server\<close> struct holds the database handle. What the statements below need of the
  handle is whether its connection enforces foreign keys. SQLite enforces them only on a
  connection that ran \<open>PRAGMA foreign_keys = ON\<close> (with this driver also
  \<open>_pragma=foreign_keys(1)\<close> in the data source name); \<open>main\<close> opens the handle with
  \<open>sql.Open("sqlite", cfg.sqlitePath)\<close>, the default path has no such parameter, and no
  statement of the program is a \<open>PRAGMA\<close>: that is \<open>main_server\<close>.
\<close>

record server =
  db_foreign_keys :: bool

definition main_server :: server where
  "main_server = \<lparr>db_foreign_keys = False\<rparr>"

definition unique_error :: string where
  "unique_error = ''constraint failed: UNIQUE constraint failed: categories.name (2067)''"

definition foreign_key_error :: string where
  "foreign_key_error = ''constraint failed: FOREIGN KEY constraint failed (787)''"

definition next_rowid :: "int \<Rightarrow> int list \<Rightarrow> int" where
  "next_rowid seq ids = fold max ids seq + 1"

text \<open>
  \<open>INSERT INTO categories(name) VALUES(?)\<close>. The column is \<open>name TEXT NOT NULL UNIQUE\<close>
  with no \<open>COLLATE\<close> clause, so the index compares names with SQLite's default
  \<open>BINARY\<close> collation: two names collide when they are the same bytes.
\<close>

definition exec_insert_category :: "env \<Rightarrow> string \<Rightarrow> store \<Rightarrow> string + store" where
  "exec_insert_category e name st =
     (case fault e InsertCategory of
        Some msg \<Rightarrow> Inl msg
      | None \<Rightarrow>
          if name \<in> cat_name ` set (categories st) then Inl unique_error
          else
            (let i = next_rowid (categories_seq st) (map cat_id (categories st))
             in Inr (st\<lparr>categories := categories st @ [\<lparr>cat_id = i, cat_name = name\<rparr>],
                        categories_seq := i\<rparr>)))"

text \<open>\<open>INSERT INTO links(name, url, category_id) VALUES(?, ?, ?)\<close>. The foreign key
  \<open>category_id REFERENCES categories(id)\<close> is checked on a connection that enforces
  foreign keys.\<close>

definition exec_insert_link ::
  "server \<Rightarrow> env \<Rightarrow> string \<Rightarrow> string \<Rightarrow> int \<Rightarrow> store \<Rightarrow> string + store" where
  "exec_insert_link srv e name url categoryID st =
     (case fault e InsertLink of
        Some msg \<Rightarrow> Inl msg
      | None \<Rightarrow>
          if db_foreign_keys srv \<and> categoryID \<notin> cat_id ` set (categories st)
          then Inl foreign_key_error
          else
            (let i = next_rowid (links_seq st) (map link_id (links st))
             in Inr (st\<lparr>links := links st @
                          [\<lparr>link_id = i, link_name = name, link_url = url,
                            link_category_id = categoryID\<rparr>],
                        links_seq := i\<rparr>)))"

text \<open>\<open>UPDATE links SET name = ?, url = ?, category_id = ? WHERE id = ?\<close>. The foreign
  key is checked for the rows the statement changes; with no row of that id nothing is
  changed and nothing is checked.\<close>

definition exec_update_link ::
  "server \<Rightarrow> env \<Rightarrow> string \<Rightarrow> string \<Rightarrow> int \<Rightarrow> int \<Rightarrow> store \<Rightarrow> string + store" where
  "exec_update_link srv e name url categoryID i st =
     (case fault e UpdateLink of
        Some msg \<Rightarrow> Inl msg
      | None \<Rightarrow>
          if db_foreign_keys srv \<and> i \<in> link_id ` set (links st)
             \<and> categoryID \<notin> cat_id ` set (categories st)
          then Inl foreign_key_error
          else Inr (st\<lparr>links :=
                      map (\<lambda>r. if link_id r = i
                                then r\<lparr>link_name := name, link_url := url,
                                       link_category_id := categoryID\<rparr>
                                else r) (links st)\<rparr>))"

text \<open>\<open>DELETE FROM links WHERE id = ?\<close>.\<close>

definition exec_delete_link :: "env \<Rightarrow> int \<Rightarrow> store \<Rightarrow> string + store" where
  "exec_delete_link e i st =
     (case fault e DeleteLink of
        Some msg \<Rightarrow> Inl msg
      | None \<Rightarrow> Inr (st\<lparr>links := filter (\<lambda>r. link_id r \<noteq> i) (links st)\<rparr>))"

text \<open>\<open>DELETE FROM links WHERE category_id = ?\<close>.\<close>

definition exec_delete_links_of_category :: "env \<Rightarrow> int \<Rightarrow> store \<Rightarrow> string + store" where
  "exec_delete_links_of_category e c st =
     (case fault e DeleteLinksOfCategory of
        Some msg \<Rightarrow> Inl msg
      | None \<Rightarrow> Inr (st\<lparr>links := filter (\<lambda>r. link_category_id r \<noteq> c) (links st)\<rparr>))"

text \<open>\<open>DELETE FROM categories WHERE id = ?\<close>. On a connection that enforces foreign
  keys, \<open>ON DELETE CASCADE\<close> deletes the links of a deleted category with it.\<close>

definition exec_delete_category :: "server \<Rightarrow> env \<Rightarrow> int \<Rightarrow> store \<Rightarrow> string + store" where
  "exec_delete_category srv e c st =
     (case fault e DeleteCategory of
        Some msg \<Rightarrow> Inl msg
      | None \<Rightarrow>
          Inr (st\<lparr>categories := filter (\<lambda>r. cat_id r \<noteq> c) (categories st),
                  links :=
                    (if db_foreign_keys srv \<and> c \<in> cat_id ` set (categories st)
                     then filter (\<lambda>r. link_category_id r \<noteq> c) (links st)
                     else links st)\<rparr>))"

text \<open>\<open>SELECT id, name FROM categories\<close> and \<open>SELECT id, name, url, category_id FROM
  links\<close>, each with the scan of its rows: a failure of the query, of a \<open>Scan\<close> or of
  \<open>Err\<close> is one fault.\<close>

definition query_categories :: "env \<Rightarrow> store \<Rightarrow> string + category_row list" where
  "query_categories e st =
     (case fault e QueryCategories of Some msg \<Rightarrow> Inl msg | None \<Rightarrow> Inr (categories st))"

definition query_links :: "env \<Rightarrow> store \<Rightarrow> string + link_row list" where
  "query_links e st =
     (case fault e QueryLinks of Some msg \<Rightarrow> Inl msg | None \<Rightarrow> Inr (links st))"

section \<open>The dashboard aggregator\<close>

record dashboardLink =
  ID :: string
  CategoryID :: string
  Name :: string
  URL :: string

record dashboardCategory =
  ID :: string
  Name :: string
  Links :: "dashboardLink list"

record dashboardData =
  Categories :: "dashboardCategory list"

text \<open>
  \<open>getDashboardData\<close> keeps, for each category id, a pointer
  \<open>&categories[len(categories)-1]\<close> into the array behind the slice \<open>categories\<close>, and
  goes on appending to the slice. An \<open>append\<close> beyond the capacity moves the slice to a
  new array; the pointers taken before still point into the old one. The arrays are
  therefore modelled as they are in memory: \<open>heap\<close> maps the address of an array to the
  elements written to it, the slice is the address of its array and its capacity (its
  length is the number of elements written), and a pointer is an address and an index.
  The \<open>Links\<close> of an item are a list of their own: an item is copied to a new array only
  in the first loop, while its \<open>Links\<close> are \<open>[]dashboardLink{}\<close> of capacity 0, so no two
  items ever share an array of links.
\<close>

type_synonym addr = nat

record loader =
  heap :: "addr \<Rightarrow> dashboardCategory list"
  next_addr :: addr
  slice_array :: addr
  slice_cap :: nat
  categoryMap :: "int \<Rightarrow> (addr \<times> nat) option"

text \<open>\<open>categories := make([]dashboardCategory, 0)\<close> and
  \<open>categoryMap := make(map[int64]*dashboardCategory)\<close>.\<close>

definition make_loader :: loader where
  "make_loader =
     \<lparr>heap = (\<lambda>_. []), next_addr = 1, slice_array = 0, slice_cap = 0,
      categoryMap = (\<lambda>_. None)\<rparr>"

definition slice_len :: "loader \<Rightarrow> nat" where
  "slice_len L = length (heap L (slice_array L))"

text \<open>\<open>categories = append(categories, item)\<close>: in place while the capacity lasts,
  otherwise into a new array that holds a copy of the elements; its capacity is the
  runtime's choice, and at least the new length.\<close>

definition append_category :: "env \<Rightarrow> dashboardCategory \<Rightarrow> loader \<Rightarrow> loader" where
  "append_category e item L =
     (if slice_len L < slice_cap L
      then L\<lparr>heap := (heap L)(slice_array L := heap L (slice_array L) @ [item])\<rparr>
      else L\<lparr>heap := (heap L)(next_addr L := heap L (slice_array L) @ [item]),
             slice_array := next_addr L,
             slice_cap := max (slice_len L + 1) (growslice e (slice_cap L)),
             next_addr := next_addr L + 1\<rparr>)"

text \<open>The body of the loop over the category rows.\<close>

definition category_item :: "category_row \<Rightarrow> dashboardCategory" where
  "category_item r =
     \<lparr>dashboardCategory.ID = FormatInt (cat_id r), dashboardCategory.Name = cat_name r,
      Links = []\<rparr>"

definition load_category :: "env \<Rightarrow> category_row \<Rightarrow> loader \<Rightarrow> loader" where
  "load_category e r L =
     (let item = category_item r;
          L' = append_category e item L
      in L'\<lparr>categoryMap := (categoryMap L')(cat_id r \<mapsto> (slice_array L', slice_len L' - 1))\<rparr>)"

text \<open>The body of the loop over the link rows:
  \<open>parentCategory.Links = append(parentCategory.Links, ...)\<close> through the pointer of the
  map. The pointer is an index below the length of its array (lemma \<open>loaded_fold\<close> below),
  so the update is never out of range.\<close>

definition link_item :: "link_row \<Rightarrow> dashboardLink" where
  "link_item r =
     \<lparr>dashboardLink.ID = FormatInt (link_id r),
      CategoryID = FormatInt (link_category_id r),
      dashboardLink.Name = link_name r,
      URL = link_url r\<rparr>"

definition attach_link :: "link_row \<Rightarrow> loader \<Rightarrow> loader" where
  "attach_link r L =
     (case categoryMap L (link_category_id r) of
        None \<Rightarrow> L
      | Some (a, i) \<Rightarrow>
          L\<lparr>heap := (heap L)(a := (heap L a)
                 [i := (heap L a ! i)\<lparr>Links := Links (heap L a ! i) @ [link_item r]\<rparr>])\<rparr>)"

text \<open>
  \<open>sort.Slice(xs, less)\<close> with \<open>less(i, j) = key(xs[i]) < key(xs[j])\<close> orders the slice
  by the key and promises nothing about the order of elements with equal keys.
  \<open>sort_Slice\<close> is one such ordering (the insertion sort \<^const>\<open>sort_key\<close>); the theorems
  below use only that its result is ordered by the key and holds the same elements.
\<close>

definition sort_Slice :: "('a \<Rightarrow> string) \<Rightarrow> 'a list \<Rightarrow> 'a list" where
  "sort_Slice key xs = sort_key key xs"

definition getDashboardData :: "env \<Rightarrow> store \<Rightarrow> string + dashboardData" where
  "getDashboardData e st =
     (case query_categories e st of
        Inl err \<Rightarrow> Inl err
      | Inr categoryRows \<Rightarrow>
          (let L1 = fold (load_category e) categoryRows make_loader
           in case query_links e st of
                Inl err \<Rightarrow> Inl err
              | Inr linkRows \<Rightarrow>
                  (let L2 = fold attach_link linkRows L1;
                       cats = sort_Slice (\<lambda>c. ToLower (unicode_lower e) (dashboardCategory.Name c))
                                (heap L2 (slice_array L2))
                   in Inr \<lparr>Categories =
                        map (\<lambda>c. c\<lparr>Links :=
                               sort_Slice (\<lambda>l. ToLower (unicode_lower e) (dashboardLink.Name l))
                                 (Links c)\<rparr>) cats\<rparr>)))"

section \<open>Requests and responses\<close>

text \<open>
  A request as the handlers read it: the method, the path, and the form, \<open>None\<close> when
  \<open>ParseForm\<close> returns an error. \<open>FormValue\<close> is the first value of a field and the empty
  string for a field that is absent. A response is its status and its body; the body of
  a rendered dashboard is the data the template \<open>dashboard.html\<close> is executed on (the
  template is not part of the program's text).
\<close>

record request =
  Method :: string
  Path :: string
  Form :: "(string \<times> string) list option"

datatype body = Plain string | Fragment dashboardData

record response =
  status :: nat
  body :: body

definition FormValue :: "(string \<times> string) list \<Rightarrow> string \<Rightarrow> string" where
  "FormValue f key = (case map_of f key of Some v \<Rightarrow> v | None \<Rightarrow> [])"

text \<open>\<open>http.Error\<close> writes the message and a newline; \<open>http.NotFound\<close> is
  \<open>http.Error(w, "404 page not found", 404)\<close>.\<close>

definition http_Error :: "string \<Rightarrow> nat \<Rightarrow> response" where
  "http_Error msg code = \<lparr>status = code, body = Plain (msg @ [CHR 0x0A])\<rparr>"

definition http_NotFound :: response where
  "http_NotFound = http_Error ''404 page not found'' 404"

definition renderDashboard :: "env \<Rightarrow> store \<Rightarrow> response" where
  "renderDashboard e st =
     (case getDashboardData e st of
        Inl err \<Rightarrow> http_Error ''failed to load dashboard'' 500
      | Inr data \<Rightarrow>
          (case fault e ExecuteTemplate of
             Some err \<Rightarrow> http_Error ''failed to render template'' 500
           | None \<Rightarrow> \<lparr>status = 200, body = Fragment data\<rparr>))"

section \<open>The handlers\<close>

text \<open>Each handler takes the request and the store and returns the response and the
  store it leaves.\<close>

definition handleHealth :: "server \<Rightarrow> env \<Rightarrow> request \<Rightarrow> store \<Rightarrow> response \<times> store" where
  "handleHealth srv e r st = (\<lparr>status = 200, body = Plain ''ok''\<rparr>, st)"

definition handleDashboard :: "server \<Rightarrow> env \<Rightarrow> request \<Rightarrow> store \<Rightarrow> response \<times> store" where
  "handleDashboard srv e r st =
     (if Method r \<noteq> ''GET'' then (http_Error ''method not allowed'' 405, st)
      else (renderDashboard e st, st))"

definition handleCreateCategory :: "server \<Rightarrow> env \<Rightarrow> request \<Rightarrow> store \<Rightarrow> response \<times> store" where
  "handleCreateCategory srv e r st =
     (if Method r \<noteq> ''POST'' then (http_Error ''method not allowed'' 405, st)
      else case Form r of
        None \<Rightarrow> (http_Error ''invalid form'' 400, st)
      | Some f \<Rightarrow>
          (let name = TrimSpace (FormValue f ''name'')
           in if name = [] then (http_Error ''category name is required'' 400, st)
              else case exec_insert_category e name st of
                Inl err \<Rightarrow>
                  if Contains (ToLower (unicode_lower e) err) ''unique''
                  then (http_Error ''category already exists'' 409, st)
                  else (http_Error ''failed to create category'' 500, st)
              | Inr st' \<Rightarrow> (renderDashboard e st', st')))"

text \<open>
  The transaction of \<open>handleCategoryActions\<close>: the two deletions work on the
  transaction's view of the store, which becomes the store at the commit. The deferred
  \<open>tx.Rollback()\<close> runs on every return, so a failure of \<open>BeginTx\<close> or of a deletion
  leaves the store as it was. A failed \<open>Commit\<close> is taken to leave it so as well (SQLite
  commits a transaction whole or not at all); the theorem on the deletion does not rest
  on that branch.
\<close>

definition handleCategoryActions :: "server \<Rightarrow> env \<Rightarrow> request \<Rightarrow> store \<Rightarrow> response \<times> store" where
  "handleCategoryActions srv e r st =
     (if Method r \<noteq> ''POST'' then (http_Error ''method not allowed'' 405, st)
      else
        (let parts = Split (Trim (TrimPrefix (Path r) ''/actions/categories/'') CHR ''/'') CHR ''/''
         in if length parts \<noteq> 2 \<or> parts ! 1 \<noteq> ''delete'' then (http_NotFound, st)
            else case ParseInt (parts ! 0) of
              None \<Rightarrow> (http_Error ''invalid category id'' 400, st)
            | Some categoryID \<Rightarrow>
                (case fault e BeginTx of
                   Some err \<Rightarrow> (http_Error ''failed to delete category'' 500, st)
                 | None \<Rightarrow>
                     (case exec_delete_links_of_category e categoryID st of
                        Inl err \<Rightarrow> (http_Error ''failed to delete category links'' 500, st)
                      | Inr st1 \<Rightarrow>
                          (case exec_delete_category srv e categoryID st1 of
                             Inl err \<Rightarrow> (http_Error ''failed to delete category'' 500, st)
                           | Inr st2 \<Rightarrow>
                               (case fault e CommitTx of
                                  Some err \<Rightarrow> (http_Error ''failed to delete category'' 500, st)
                                | None \<Rightarrow> (renderDashboard e st2, st2)))))))"

definition handleCreateLink :: "server \<Rightarrow> env \<Rightarrow> request \<Rightarrow> store \<Rightarrow> response \<times> store" where
  "handleCreateLink srv e r st =
     (if Method r \<noteq> ''POST'' then (http_Error ''method not allowed'' 405, st)
      else case Form r of
        None \<Rightarrow> (http_Error ''invalid form'' 400, st)
      | Some f \<Rightarrow>
          (let name = TrimSpace (FormValue f ''name'');
               url = TrimSpace (FormValue f ''url'');
               categoryIDText = TrimSpace (FormValue f ''category_id'')
           in if name = [] \<or> url = [] \<or> categoryIDText = []
              then (http_Error ''name, url, and category are required'' 400, st)
              else case ParseInt categoryIDText of
                None \<Rightarrow> (http_Error ''invalid category id'' 400, st)
              | Some categoryID \<Rightarrow>
                  (case exec_insert_link srv e name url categoryID st of
                     Inl err \<Rightarrow> (http_Error ''failed to create link'' 500, st)
                   | Inr st' \<Rightarrow> (renderDashboard e st', st'))))"

definition handleDeleteLink ::
  "server \<Rightarrow> env \<Rightarrow> request \<Rightarrow> int \<Rightarrow> store \<Rightarrow> response \<times> store" where
  "handleDeleteLink srv e r i st =
     (case exec_delete_link e i st of
        Inl err \<Rightarrow> (http_Error ''failed to delete link'' 500, st)
      | Inr st' \<Rightarrow> (renderDashboard e st', st'))"

definition handleUpdateLink ::
  "server \<Rightarrow> env \<Rightarrow> request \<Rightarrow> int \<Rightarrow> store \<Rightarrow> response \<times> store" where
  "handleUpdateLink srv e r i st =
     (case Form r of
        None \<Rightarrow> (http_Error ''invalid form'' 400, st)
      | Some f \<Rightarrow>
          (let name = TrimSpace (FormValue f ''name'');
               url = TrimSpace (FormValue f ''url'');
               categoryIDText = TrimSpace (FormValue f ''category_id'')
           in if name = [] \<or> url = [] \<or> categoryIDText = []
              then (http_Error ''name, url, and category are required'' 400, st)
              else case ParseInt categoryIDText of
                None \<Rightarrow> (http_Error ''invalid category id'' 400, st)
              | Some categoryID \<Rightarrow>
                  (case exec_update_link srv e name url categoryID i st of
                     Inl err \<Rightarrow> (http_Error ''failed to update link'' 500, st)
                   | Inr st' \<Rightarrow> (renderDashboard e st', st'))))"

definition handleLinkActions :: "server \<Rightarrow> env \<Rightarrow> request \<Rightarrow> store \<Rightarrow> response \<times> store" where
  "handleLinkActions srv e r st =
     (if Method r \<noteq> ''POST'' then (http_Error ''method not allowed'' 405, st)
      else
        (let parts = Split (Trim (TrimPrefix (Path r) ''/actions/links/'') CHR ''/'') CHR ''/''
         in if length parts \<noteq> 2 then (http_NotFound, st)
            else case ParseInt (parts ! 0) of
              None \<Rightarrow> (http_Error ''invalid link id'' 400, st)
            | Some i \<Rightarrow>
                if parts ! 1 = ''delete'' then handleDeleteLink srv e r i st
                else if parts ! 1 = ''update'' then handleUpdateLink srv e r i st
                else (http_NotFound, st)))"

text \<open>The patterns \<open>main\<close> registers on the \<open>ServeMux\<close>, each with its handler, and the
  method the interface table of the specification gives each pattern's routes.\<close>

datatype route =
  Health | PartialsDashboard | CategoriesCreate | CategoriesActions | LinksCreate | LinksActions

fun pattern :: "route \<Rightarrow> string" where
  "pattern Health = ''/health''"
| "pattern PartialsDashboard = ''/partials/dashboard''"
| "pattern CategoriesCreate = ''/actions/categories/create''"
| "pattern CategoriesActions = ''/actions/categories/''"
| "pattern LinksCreate = ''/actions/links/create''"
| "pattern LinksActions = ''/actions/links/''"

fun handler :: "route \<Rightarrow> server \<Rightarrow> env \<Rightarrow> request \<Rightarrow> store \<Rightarrow> response \<times> store" where
  "handler Health = handleHealth"
| "handler PartialsDashboard = handleDashboard"
| "handler CategoriesCreate = handleCreateCategory"
| "handler CategoriesActions = handleCategoryActions"
| "handler LinksCreate = handleCreateLink"
| "handler LinksActions = handleLinkActions"

fun route_method :: "route \<Rightarrow> string" where
  "route_method Health = ''GET''"
| "route_method PartialsDashboard = ''GET''"
| "route_method CategoriesCreate = ''POST''"
| "route_method CategoriesActions = ''POST''"
| "route_method LinksCreate = ''POST''"
| "route_method LinksActions = ''POST''"

section \<open>Invariants of the two loops of the aggregator\<close>

text \<open>
  After the category rows \<open>rows\<close>: the array of the slice holds their items in order,
  every pointer of the map is an index into an allocated array at an item of its
  category id, and no item has a link yet.
\<close>

definition loaded :: "category_row list \<Rightarrow> loader \<Rightarrow> bool" where
  "loaded rows L \<longleftrightarrow>
     heap L (slice_array L) = map category_item rows \<and>
     slice_array L < next_addr L \<and>
     (\<forall>k a i. categoryMap L k = Some (a, i) \<longrightarrow>
        a < next_addr L \<and> i < length (heap L a) \<and>
        dashboardCategory.ID (heap L a ! i) = FormatInt k \<and> k \<in> cat_id ` set rows) \<and>
     (\<forall>a. \<forall>c \<in> set (heap L a). Links c = [])"

text \<open>
  After the link rows \<open>lrows\<close>: the array of the slice still holds the ids and names of
  the category rows \<open>crows\<close> in order, the pointers are as before, and every link of an
  item, in whichever array, is the item of a link row whose category id is the item's.
\<close>

definition attached :: "category_row list \<Rightarrow> link_row list \<Rightarrow> loader \<Rightarrow> bool" where
  "attached crows lrows L \<longleftrightarrow>
     map (\<lambda>c. (dashboardCategory.ID c, dashboardCategory.Name c)) (heap L (slice_array L)) =
       map (\<lambda>r. (FormatInt (cat_id r), cat_name r)) crows \<and>
     (\<forall>k a i. categoryMap L k = Some (a, i) \<longrightarrow>
        i < length (heap L a) \<and>
        dashboardCategory.ID (heap L a ! i) = FormatInt k \<and> k \<in> cat_id ` set crows) \<and>
     (\<forall>a. \<forall>c \<in> set (heap L a). \<forall>l \<in> set (Links c).
        \<exists>r \<in> set lrows. l = link_item r \<and>
          FormatInt (link_category_id r) = dashboardCategory.ID c \<and>
          link_category_id r \<in> cat_id ` set crows)"

section \<open>Concrete inputs\<close>

text \<open>
  An environment in which no call fails and \<open>append\<close> doubles the capacity. Its
  \<open>unicode_lower\<close> is never consulted below: the names of the stores and requests of
  this section are ASCII.
\<close>

definition quiet_env :: env where
  "quiet_env = \<lparr>fault = (\<lambda>_. None), unicode_lower = (\<lambda>s. s), growslice = (\<lambda>c. 2 * c)\<rparr>"

definition empty_store :: store where
  "empty_store = \<lparr>categories = [], links = [], categories_seq = 0, links_seq = 0\<rparr>"

definition store_dev :: store where
  "store_dev =
     \<lparr>categories = [\<lparr>cat_id = 1, cat_name = ''Dev''\<rparr>],
      links = [\<lparr>link_id = 1, link_name = ''Repo'', link_url = ''https://x'',
                link_category_id = 1\<rparr>],
      categories_seq = 1, links_seq = 1\<rparr>"

text \<open>Two categories read in the order \<open>Dev\<close>, \<open>art\<close>; two links of \<open>art\<close> read in
  the order \<open>b\<close>, \<open>A\<close>; and a link whose category 7 is no row.\<close>

definition store_two :: store where
  "store_two =
     \<lparr>categories = [\<lparr>cat_id = 1, cat_name = ''Dev''\<rparr>, \<lparr>cat_id = 2, cat_name = ''art''\<rparr>],
      links = [\<lparr>link_id = 1, link_name = ''b'', link_url = ''u'', link_category_id = 2\<rparr>,
               \<lparr>link_id = 2, link_name = ''A'', link_url = ''v'', link_category_id = 2\<rparr>,
               \<lparr>link_id = 3, link_name = ''z'', link_url = ''w'', link_category_id = 7\<rparr>],
      categories_seq = 2, links_seq = 3\<rparr>"

definition view_two :: dashboardData where
  "view_two =
     \<lparr>Categories =
        [\<lparr>dashboardCategory.ID = ''2'', dashboardCategory.Name = ''art'',
          Links = [\<lparr>dashboardLink.ID = ''2'', CategoryID = ''2'',
                     dashboardLink.Name = ''A'', URL = ''v''\<rparr>,
                   \<lparr>dashboardLink.ID = ''1'', CategoryID = ''2'',
                     dashboardLink.Name = ''b'', URL = ''u''\<rparr>]\<rparr>,
         \<lparr>dashboardCategory.ID = ''1'', dashboardCategory.Name = ''Dev'', Links = []\<rparr>]\<rparr>"

text \<open>The quiet environment, but for one call that fails.\<close>

definition failing_env :: "call \<Rightarrow> env" where
  "failing_env c = quiet_env\<lparr>fault := (\<lambda>x. if x = c then Some ''context deadline exceeded'' else None)\<rparr>"

text \<open>Two categories read in the order \<open>Dev\<close>, \<open>art\<close>, and one link of \<open>Dev\<close>.\<close>

definition store_first :: store where
  "store_first =
     \<lparr>categories = [\<lparr>cat_id = 1, cat_name = ''Dev''\<rparr>, \<lparr>cat_id = 2, cat_name = ''art''\<rparr>],
      links = [\<lparr>link_id = 1, link_name = ''Repo'', link_url = ''https://x'',
                link_category_id = 1\<rparr>],
      categories_seq = 2, links_seq = 1\<rparr>"

text \<open>The same rows, the categories read in the order \<open>art\<close>, \<open>Dev\<close>.\<close>

definition store_first_rev :: store where
  "store_first_rev =
     \<lparr>categories = [\<lparr>cat_id = 2, cat_name = ''art''\<rparr>, \<lparr>cat_id = 1, cat_name = ''Dev''\<rparr>],
      links = [\<lparr>link_id = 1, link_name = ''Repo'', link_url = ''https://x'',
                link_category_id = 1\<rparr>],
      categories_seq = 2, links_seq = 1\<rparr>"

section \<open>Paths and numbers\<close>

lemma digit_of_slash: "digit_of CHR ''/'' = None"
  by (simp add: digit_of_def)

lemma parse_digits_no_slash: "parse_digits n ds = Some m \<Longrightarrow> CHR ''/'' \<notin> set ds"
  by (induction ds arbitrary: n) (auto simp: digit_of_slash split: option.splits)

lemma ParseInt_shape:
  assumes "ParseInt s = Some i"
  shows "s \<noteq> [] \<and> CHR ''/'' \<notin> set s"
proof (cases s)
  case Nil
  with assms show ?thesis by (simp add: ParseInt_def)
next
  case (Cons c cs)
  from assms Cons obtain un where
    "parse_digits 0 (if c = CHR ''+'' \<or> c = CHR ''-'' then cs else s) = Some un"
    by (auto simp: ParseInt_def Let_def split: if_splits option.splits)
  then have "CHR ''/'' \<notin> set (if c = CHR ''+'' \<or> c = CHR ''-'' then cs else s)"
    by (rule parse_digits_no_slash)
  with Cons show ?thesis by (auto split: if_splits)
qed

lemma Split_nonempty: "Split s c \<noteq> []"
  by (induction s) (auto split: list.splits)

lemma Split_no_sep: "c \<notin> set s \<Longrightarrow> Split s c = [s]"
  by (induction s) auto

lemma Split_append_sep: "c \<notin> set s \<Longrightarrow> Split (s @ c # t) c = s # Split t c"
  by (induction s) auto

lemma Trim_unchanged:
  assumes "s \<noteq> []" and "hd s \<noteq> c" and "last s \<noteq> c"
  shows "Trim s c = s"
proof -
  have lead: "dropWhile (\<lambda>x. x = c) s = s"
    using assms by (cases s) auto
  have "rev s \<noteq> []" and "hd (rev s) \<noteq> c"
    using assms by (simp_all add: hd_rev)
  then have trail: "dropWhile (\<lambda>x. x = c) (rev s) = rev s"
    by (cases "rev s") auto
  show ?thesis by (simp add: Trim_def lead trail)
qed

lemma action_path_parts:
  assumes "ParseInt s = Some i" and "CHR ''/'' \<notin> set verb" and "verb \<noteq> []"
  shows "Split (Trim (TrimPrefix (p @ s @ CHR ''/'' # verb) p) CHR ''/'') CHR ''/'' = [s, verb]"
proof -
  from assms(1) have s: "s \<noteq> []" "CHR ''/'' \<notin> set s"
    using ParseInt_shape by blast+
  have "TrimPrefix (p @ s @ CHR ''/'' # verb) p = s @ CHR ''/'' # verb"
    by (simp add: TrimPrefix_def)
  moreover have "Trim (s @ CHR ''/'' # verb) CHR ''/'' = s @ CHR ''/'' # verb"
  proof (rule Trim_unchanged)
    show "s @ CHR ''/'' # verb \<noteq> []" by simp
    show "hd (s @ CHR ''/'' # verb) \<noteq> CHR ''/''" using s by (cases s) auto
    have "last (s @ CHR ''/'' # verb) = last verb"
      using assms(3) by simp
    moreover have "last verb \<in> set verb"
      using assms(3) by (rule last_in_set)
    ultimately show "last (s @ CHR ''/'' # verb) \<noteq> CHR ''/''"
      using assms(2) by metis
  qed
  ultimately show ?thesis
    using s assms(2) by (simp add: Split_append_sep Split_no_sep)
qed

lemma digit_char_inj: "a < 10 \<Longrightarrow> b < 10 \<Longrightarrow> digit_char a = digit_char b \<Longrightarrow> a = b"
proof -
  assume "a < 10" "b < 10" "digit_char a = digit_char b"
  moreover have "distinct ''0123456789''" by simp
  ultimately show "a = b" unfolding digit_char_def
    by (simp add: nth_eq_iff_index_eq)
qed

lemma dec_digits_nonempty: "dec_digits n \<noteq> []"
  by (subst dec_digits.simps) simp

lemma digit_char_not_minus: "d < 10 \<Longrightarrow> CHR ''-'' \<noteq> digit_char d"
proof -
  assume "d < 10"
  then have "digit_char d \<in> set ''0123456789''" unfolding digit_char_def
    by (intro nth_mem) simp
  then show ?thesis by auto
qed

lemma dec_digits_no_minus: "CHR ''-'' \<notin> set (dec_digits n)"
proof (induction n rule: dec_digits.induct)
  case (1 n)
  show ?case
  proof (cases "n < 10")
    case True
    then show ?thesis by (subst dec_digits.simps) (simp add: digit_char_not_minus)
  next
    case False
    with 1 show ?thesis
      by (subst dec_digits.simps) (simp add: digit_char_not_minus)
  qed
qed

lemma dec_digits_inj: "dec_digits m = dec_digits n \<Longrightarrow> m = n"
proof (induction m arbitrary: n rule: dec_digits.induct)
  case (1 m)
  show ?case
  proof (cases "m < 10")
    case m: True
    show ?thesis
    proof (cases "n < 10")
      case True
      with m 1(2) show ?thesis
        by (simp add: dec_digits.simps[of m] dec_digits.simps[of n] digit_char_inj)
    next
      case False
      with m 1(2) dec_digits_nonempty[of "n div 10"] show ?thesis
        by (simp add: dec_digits.simps[of m] dec_digits.simps[of n] Cons_eq_append_conv)
    qed
  next
    case m: False
    show ?thesis
    proof (cases "n < 10")
      case True
      with m 1(2) dec_digits_nonempty[of "m div 10"] show ?thesis
        by (simp add: dec_digits.simps[of m] dec_digits.simps[of n] append_eq_Cons_conv)
    next
      case False
      with m 1(2) have eq: "dec_digits (m div 10) = dec_digits (n div 10)"
        and d: "digit_char (m mod 10) = digit_char (n mod 10)"
        by (simp_all add: dec_digits.simps[of m] dec_digits.simps[of n])
      from 1(1)[OF m eq] have "m div 10 = n div 10" .
      moreover from d have "m mod 10 = n mod 10" by (simp add: digit_char_inj)
      ultimately show ?thesis by (metis div_mult_mod_eq)
    qed
  qed
qed

lemma FormatInt_inj: "FormatInt i = FormatInt j \<Longrightarrow> i = j"
proof -
  assume eq: "FormatInt i = FormatInt j"
  have hd_neg: "\<And>k. k < 0 \<Longrightarrow> hd (FormatInt k) = CHR ''-''" by (simp add: FormatInt_def)
  have hd_pos: "\<And>k. \<not> k < 0 \<Longrightarrow> hd (FormatInt k) \<noteq> CHR ''-''"
    using dec_digits_no_minus dec_digits_nonempty
    by (metis FormatInt_def hd_in_set)
  show ?thesis
  proof (cases "i < 0")
    case True
    with eq hd_neg hd_pos have "j < 0" by metis
    with True eq have "nat (- i) = nat (- j)"
      by (simp add: FormatInt_def dec_digits_inj)
    with True \<open>j < 0\<close> show ?thesis by simp
  next
    case False
    with eq hd_neg hd_pos have "\<not> j < 0" by metis
    with False eq have "nat i = nat j"
      by (simp add: FormatInt_def dec_digits_inj)
    with False \<open>\<not> j < 0\<close> show ?thesis by simp
  qed
qed

section \<open>The loops of the aggregator keep their invariants\<close>

lemma loaded_make_loader: "loaded [] make_loader"
  by (simp add: loaded_def make_loader_def)

lemma append_category_array:
  "heap (append_category e item L) (slice_array (append_category e item L)) =
     heap L (slice_array L) @ [item]"
  by (simp add: append_category_def)

lemma append_category_next:
  "slice_array L < next_addr L \<Longrightarrow>
     slice_array (append_category e item L) < next_addr (append_category e item L) \<and>
     next_addr L \<le> next_addr (append_category e item L)"
  by (simp add: append_category_def)

lemma append_category_map:
  "categoryMap (append_category e item L) = categoryMap L"
  by (simp add: append_category_def)

lemma append_category_old:
  "a < next_addr L \<Longrightarrow> i < length (heap L a) \<Longrightarrow>
     i < length (heap (append_category e item L) a) \<and>
     heap (append_category e item L) a ! i = heap L a ! i"
  by (auto simp: append_category_def nth_append)

lemma append_category_set:
  "set (heap (append_category e item L) a) \<subseteq>
     insert item (set (heap L a) \<union> set (heap L (slice_array L)))"
  by (auto simp: append_category_def)

lemma loaded_step:
  assumes "loaded rows L"
  shows "loaded (rows @ [r]) (load_category e r L)"
proof -
  define L' where "L' = append_category e (category_item r) L"
  from assms have arr: "heap L (slice_array L) = map category_item rows"
    and nxt: "slice_array L < next_addr L"
    and ptr: "\<And>k a i. categoryMap L k = Some (a, i) \<Longrightarrow>
        a < next_addr L \<and> i < length (heap L a) \<and>
        dashboardCategory.ID (heap L a ! i) = FormatInt k \<and> k \<in> cat_id ` set rows"
    and emp: "\<And>a c. c \<in> set (heap L a) \<Longrightarrow> Links c = []"
    unfolding loaded_def by blast+
  have arr': "heap L' (slice_array L') = map category_item (rows @ [r])"
    unfolding L'_def by (simp add: append_category_array arr)
  have nxt': "slice_array L' < next_addr L'" and mono: "next_addr L \<le> next_addr L'"
    unfolding L'_def using append_category_next[OF nxt] by blast+
  have ptr': "a < next_addr L' \<and> i < length (heap L' a) \<and>
        dashboardCategory.ID (heap L' a ! i) = FormatInt k \<and> k \<in> cat_id ` set (rows @ [r])"
    if "((categoryMap L')(cat_id r \<mapsto> (slice_array L', slice_len L' - 1))) k = Some (a, i)"
    for k a i
  proof (cases "k = cat_id r")
    case True
    with that have a: "a = slice_array L'" and i: "i = slice_len L' - 1" by simp_all
    have len: "length (heap L' (slice_array L')) = Suc (length rows)"
      by (simp add: arr')
    have "heap L' (slice_array L') ! length rows = category_item r"
      by (simp add: arr' nth_append)
    with True a i len nxt' show ?thesis
      by (simp add: slice_len_def category_item_def)
  next
    case False
    with that have old: "categoryMap L k = Some (a, i)"
      by (simp add: L'_def append_category_map)
    from ptr[OF old] append_category_old[of a L i e "category_item r"] mono
    show ?thesis unfolding L'_def by auto
  qed
  have emp': "Links c = []" if "c \<in> set (heap L' a)" for a c
  proof -
    from that append_category_set[of e "category_item r" L a]
    have "c = category_item r \<or> c \<in> set (heap L a) \<or> c \<in> set (heap L (slice_array L))"
      unfolding L'_def by auto
    with emp show ?thesis by (auto simp: category_item_def)
  qed
  have "load_category e r L =
      L'\<lparr>categoryMap := (categoryMap L')(cat_id r \<mapsto> (slice_array L', slice_len L' - 1))\<rparr>"
    by (simp add: load_category_def L'_def Let_def)
  with arr' nxt' ptr' emp' show ?thesis
    unfolding loaded_def by simp
qed

lemma loaded_fold:
  "loaded seen L \<Longrightarrow> loaded (seen @ rows) (fold (load_category e) rows L)"
proof (induction rows arbitrary: seen L)
  case Nil
  then show ?case by simp
next
  case (Cons r rows)
  from Cons.prems have "loaded (seen @ [r]) (load_category e r L)"
    by (rule loaded_step)
  from Cons.IH[OF this] show ?case by simp
qed

lemma loaded_attached: "loaded crows L \<Longrightarrow> attached crows [] L"
  unfolding loaded_def attached_def
  by (auto simp: category_item_def)

lemma attached_step:
  assumes "attached crows lrows L"
  shows "attached crows (lrows @ [r]) (attach_link r L)"
proof (cases "categoryMap L (link_category_id r)")
  case None
  with assms show ?thesis
    unfolding attached_def attach_link_def by fastforce
next
  case (Some p)
  obtain a i where p: "p = (a, i)" by (cases p)
  from assms have skel: "map (\<lambda>c. (dashboardCategory.ID c, dashboardCategory.Name c))
        (heap L (slice_array L)) = map (\<lambda>r. (FormatInt (cat_id r), cat_name r)) crows"
    and ptr: "\<And>k a i. categoryMap L k = Some (a, i) \<Longrightarrow>
        i < length (heap L a) \<and>
        dashboardCategory.ID (heap L a ! i) = FormatInt k \<and> k \<in> cat_id ` set crows"
    and lnk: "\<And>a c l. c \<in> set (heap L a) \<Longrightarrow> l \<in> set (Links c) \<Longrightarrow>
        \<exists>r \<in> set lrows. l = link_item r \<and>
          FormatInt (link_category_id r) = dashboardCategory.ID c \<and>
          link_category_id r \<in> cat_id ` set crows"
    unfolding attached_def by blast+
  define old where "old = heap L a ! i"
  define new where "new = old\<lparr>Links := Links old @ [link_item r]\<rparr>"
  define L' where "L' = L\<lparr>heap := (heap L)(a := (heap L a)[i := new])\<rparr>"
  have L': "attach_link r L = L'"
    by (simp add: attach_link_def Some p L'_def new_def old_def)
  from ptr[of "link_category_id r" a i] Some p
  have i: "i < length (heap L a)"
    and id: "dashboardCategory.ID old = FormatInt (link_category_id r)"
    and mem: "link_category_id r \<in> cat_id ` set crows"
    by (simp_all add: old_def)
  have same: "(dashboardCategory.ID new, dashboardCategory.Name new) =
      (dashboardCategory.ID old, dashboardCategory.Name old)"
    by (simp add: new_def)
  have upd: "map (\<lambda>c. (dashboardCategory.ID c, dashboardCategory.Name c)) ((heap L a)[i := new]) =
      map (\<lambda>c. (dashboardCategory.ID c, dashboardCategory.Name c)) (heap L a)"
    using i same by (simp add: map_update old_def list_update_same_conv)
  have skel': "map (\<lambda>c. (dashboardCategory.ID c, dashboardCategory.Name c))
        (heap L' (slice_array L')) = map (\<lambda>r. (FormatInt (cat_id r), cat_name r)) crows"
    using skel upd by (auto simp: L'_def)
  have ptr': "j < length (heap L' b) \<and>
        dashboardCategory.ID (heap L' b ! j) = FormatInt k \<and> k \<in> cat_id ` set crows"
    if "categoryMap L' k = Some (b, j)" for k b j
  proof -
    from that have "categoryMap L k = Some (b, j)" by (simp add: L'_def)
    from ptr[OF this] i show ?thesis
      by (auto simp: L'_def nth_list_update new_def old_def)
  qed
  have lnk': "\<exists>r' \<in> set (lrows @ [r]). l = link_item r' \<and>
          FormatInt (link_category_id r') = dashboardCategory.ID c \<and>
          link_category_id r' \<in> cat_id ` set crows"
    if c: "c \<in> set (heap L' b)" and l: "l \<in> set (Links c)" for b c l
  proof (cases "c = new \<and> l = link_item r")
    case True
    with id mem show ?thesis by (simp add: new_def)
  next
    case False
    have "c \<in> set (heap L b) \<or> c = new"
    proof (cases "b = a")
      case True
      with c have "c \<in> set ((heap L a)[i := new])" by (simp add: L'_def)
      then have "c \<in> insert new (set (heap L a))"
        using set_update_subset_insert by fastforce
      with True show ?thesis by auto
    next
      case False
      with c show ?thesis by (simp add: L'_def)
    qed
    then consider "c \<in> set (heap L b)" | "c = new" "l \<in> set (Links old)"
      using False l by (auto simp: new_def)
    then show ?thesis
    proof cases
      case 1
      from lnk[OF 1 l] show ?thesis by auto
    next
      case 2
      have "old \<in> set (heap L a)" using i by (simp add: old_def)
      from lnk[OF this 2(2)] 2(1) show ?thesis by (auto simp: new_def)
    qed
  qed
  from skel' ptr' lnk' show ?thesis
    unfolding L' attached_def by blast
qed

lemma attached_fold:
  "attached crows seen L \<Longrightarrow> attached crows (seen @ rows) (fold attach_link rows L)"
proof (induction rows arbitrary: seen L)
  case Nil
  then show ?case by simp
next
  case (Cons r rows)
  from Cons.prems have "attached crows (seen @ [r]) (attach_link r L)"
    by (rule attached_step)
  from Cons.IH[OF this] show ?case by simp
qed

section \<open>The view of a store\<close>

lemma getDashboardData_Inr:
  assumes "getDashboardData e st = Inr d"
  obtains L where "attached (categories st) (links st) L"
    and "Categories d =
       map (\<lambda>c. c\<lparr>Links := sort_Slice (\<lambda>l. ToLower (unicode_lower e) (dashboardLink.Name l)) (Links c)\<rparr>)
         (sort_Slice (\<lambda>c. ToLower (unicode_lower e) (dashboardCategory.Name c))
            (heap L (slice_array L)))"
proof -
  define L1 where "L1 = fold (load_category e) (categories st) make_loader"
  define L2 where "L2 = fold attach_link (links st) L1"
  from assms have qc: "query_categories e st = Inr (categories st)"
    and ql: "query_links e st = Inr (links st)"
    by (auto simp: getDashboardData_def query_categories_def query_links_def Let_def
        split: option.splits sum.splits)
  have "loaded ([] @ categories st) L1"
    unfolding L1_def by (rule loaded_fold) (rule loaded_make_loader)
  then have "attached (categories st) [] L1"
    by (simp add: loaded_attached)
  then have "attached (categories st) ([] @ links st) L2"
    unfolding L2_def by (rule attached_fold)
  moreover from assms have "Categories d =
       map (\<lambda>c. c\<lparr>Links := sort_Slice (\<lambda>l. ToLower (unicode_lower e) (dashboardLink.Name l)) (Links c)\<rparr>)
         (sort_Slice (\<lambda>c. ToLower (unicode_lower e) (dashboardCategory.Name c))
            (heap L2 (slice_array L2)))"
    by (auto simp: getDashboardData_def qc ql Let_def L1_def L2_def)
  ultimately show ?thesis by (intro that) simp_all
qed

lemma getDashboardData_total:
  assumes "fault e QueryCategories = None" and "fault e QueryLinks = None"
  shows "\<exists>d. getDashboardData e st = Inr d"
  using assms by (simp add: getDashboardData_def query_categories_def query_links_def Let_def)

lemma renderDashboard_ok:
  assumes "fault e QueryCategories = None" and "fault e QueryLinks = None"
    and "fault e ExecuteTemplate = None"
  shows "\<exists>d. getDashboardData e st = Inr d \<and>
    renderDashboard e st = \<lparr>status = 200, body = Fragment d\<rparr>"
proof -
  from getDashboardData_total[OF assms(1,2)] obtain d where "getDashboardData e st = Inr d" ..
  with assms(3) show ?thesis by (simp add: renderDashboard_def)
qed

lemma getDashboardData_store_two: "getDashboardData quiet_env store_two = Inr view_two"
proof -
  have low: "ToLower (\<lambda>s. s) ''Dev'' = ''dev''" "ToLower (\<lambda>s. s) ''art'' = ''art''"
    "ToLower (\<lambda>s. s) ''b'' = ''b''" "ToLower (\<lambda>s. s) ''A'' = ''a''"
    by code_simp+
  show ?thesis
    by (simp add: getDashboardData_def query_categories_def query_links_def quiet_env_def
        store_two_def view_two_def make_loader_def load_category_def append_category_def
        slice_len_def attach_link_def category_item_def link_item_def sort_Slice_def Let_def
        FormatInt_def dec_digits.simps digit_char_def low)
qed

section \<open>Order of the view\<close>

text \<open>
  What a view lists is in order: its categories are in ascending order of their
  lower-cased names, and the links listed under a category are in ascending order of
  their lower-cased names. Which links are listed is another matter, taken up with the
  pointers of \<open>categoryMap\<close> below.
\<close>

lemma dashboard_sorted:
  assumes "getDashboardData e st = Inr d"
  shows "sorted (map (\<lambda>c. ToLower (unicode_lower e) (dashboardCategory.Name c)) (Categories d)) \<and>
    (\<forall>c \<in> set (Categories d).
       sorted (map (\<lambda>l. ToLower (unicode_lower e) (dashboardLink.Name l)) (Links c)))"
proof -
  from assms obtain L where
    att: "attached (categories st) (links st) L" and
    view: "Categories d =
       map (\<lambda>c. c\<lparr>Links := sort_Slice (\<lambda>l. ToLower (unicode_lower e) (dashboardLink.Name l)) (Links c)\<rparr>)
         (sort_Slice (\<lambda>c. ToLower (unicode_lower e) (dashboardCategory.Name c))
            (heap L (slice_array L)))"
    by (rule getDashboardData_Inr)
  have "map (\<lambda>c. ToLower (unicode_lower e) (dashboardCategory.Name c)) (Categories d) =
      map (\<lambda>c. ToLower (unicode_lower e) (dashboardCategory.Name c))
        (sort_key (\<lambda>c. ToLower (unicode_lower e) (dashboardCategory.Name c)) (heap L (slice_array L)))"
    by (simp add: view sort_Slice_def comp_def)
  then have "sorted (map (\<lambda>c. ToLower (unicode_lower e) (dashboardCategory.Name c)) (Categories d))"
    by (simp only: sorted_sort_key)
  moreover have "sorted (map (\<lambda>l. ToLower (unicode_lower e) (dashboardLink.Name l)) (Links c))"
    if "c \<in> set (Categories d)" for c
    using that by (auto simp: view sort_Slice_def)
  ultimately show ?thesis by blast
qed

lemma dashboard_sorted_store_two:
  "getDashboardData quiet_env store_two = Inr view_two \<and>
   sorted (map (\<lambda>c. ToLower (unicode_lower quiet_env) (dashboardCategory.Name c)) (Categories view_two)) \<and>
   sorted (map (\<lambda>l. ToLower (unicode_lower quiet_env) (dashboardLink.Name l))
     (Links (Categories view_two ! 0)))"
  using dashboard_sorted[OF getDashboardData_store_two] getDashboardData_store_two
  by (simp add: view_two_def)

lemma view_category:
  assumes att: "attached crows lrows L"
    and view: "cs = map (\<lambda>c. c\<lparr>Links := sort_Slice kl (Links c)\<rparr>) (sort_Slice kc (heap L (slice_array L)))"
    and c: "c \<in> set cs"
  shows "\<exists>cr \<in> set crows.
      dashboardCategory.ID c = FormatInt (cat_id cr) \<and> dashboardCategory.Name c = cat_name cr \<and>
      (\<forall>l \<in> set (Links c). \<exists>lr \<in> set lrows. link_category_id lr = cat_id cr \<and> l = link_item lr)"
proof -
  from c view obtain c0 where c0: "c0 \<in> set (heap L (slice_array L))"
    and cc: "c = c0\<lparr>Links := sort_Slice kl (Links c0)\<rparr>"
    by (auto simp: sort_Slice_def)
  from att have skel: "map (\<lambda>c. (dashboardCategory.ID c, dashboardCategory.Name c))
        (heap L (slice_array L)) = map (\<lambda>r. (FormatInt (cat_id r), cat_name r)) crows"
    and lnk: "\<And>a c l. c \<in> set (heap L a) \<Longrightarrow> l \<in> set (Links c) \<Longrightarrow>
        \<exists>r \<in> set lrows. l = link_item r \<and>
          FormatInt (link_category_id r) = dashboardCategory.ID c \<and>
          link_category_id r \<in> cat_id ` set crows"
    unfolding attached_def by blast+
  from c0 have "(dashboardCategory.ID c0, dashboardCategory.Name c0) \<in>
      set (map (\<lambda>c. (dashboardCategory.ID c, dashboardCategory.Name c)) (heap L (slice_array L)))"
    by (simp add: image_iff) blast
  then have "(dashboardCategory.ID c0, dashboardCategory.Name c0) \<in>
      set (map (\<lambda>r. (FormatInt (cat_id r), cat_name r)) crows)"
    by (simp only: skel)
  then obtain cr where cr: "cr \<in> set crows"
    and id: "dashboardCategory.ID c0 = FormatInt (cat_id cr)"
    and nm: "dashboardCategory.Name c0 = cat_name cr"
    by auto
  have "\<exists>lr \<in> set lrows. link_category_id lr = cat_id cr \<and> l = link_item lr"
    if "l \<in> set (Links c)" for l
  proof -
    from that cc have "l \<in> set (Links c0)" by (simp add: sort_Slice_def)
    from lnk[OF c0 this] obtain lr where "lr \<in> set lrows" "l = link_item lr"
      "FormatInt (link_category_id lr) = dashboardCategory.ID c0"
      by blast
    with id FormatInt_inj[of "link_category_id lr" "cat_id cr"] show ?thesis by auto
  qed
  with cr id nm cc show ?thesis by auto
qed

section \<open>Links of the view\<close>

text \<open>
  C5. Every link of the view is the item of a stored link row whose category id is the id
  of a stored category row, and it stands in the list of that category; the item of a
  link row whose category id is no stored category stands in no list of the view.
\<close>

theorem dashboard_links_resolved:
  assumes "getDashboardData e st = Inr d"
  shows "(\<forall>c \<in> set (Categories d). \<forall>l \<in> set (Links c).
            \<exists>cr \<in> set (categories st). \<exists>lr \<in> set (links st).
              link_category_id lr = cat_id cr \<and>
              dashboardCategory.ID c = FormatInt (cat_id cr) \<and>
              dashboardCategory.Name c = cat_name cr \<and> l = link_item lr) \<and>
         (\<forall>lr \<in> set (links st).
            link_category_id lr \<notin> cat_id ` set (categories st) \<longrightarrow>
            (\<forall>c \<in> set (Categories d). link_item lr \<notin> set (Links c)))"
proof -
  from assms obtain L where
    att: "attached (categories st) (links st) L" and
    view: "Categories d =
       map (\<lambda>c. c\<lparr>Links := sort_Slice (\<lambda>l. ToLower (unicode_lower e) (dashboardLink.Name l)) (Links c)\<rparr>)
         (sort_Slice (\<lambda>c. ToLower (unicode_lower e) (dashboardCategory.Name c))
            (heap L (slice_array L)))"
    by (rule getDashboardData_Inr)
  have res: "\<exists>cr \<in> set (categories st). \<exists>lr \<in> set (links st).
              link_category_id lr = cat_id cr \<and>
              dashboardCategory.ID c = FormatInt (cat_id cr) \<and>
              dashboardCategory.Name c = cat_name cr \<and> l = link_item lr"
    if "c \<in> set (Categories d)" and "l \<in> set (Links c)" for c l
    using view_category[OF att view that(1)] that(2) by blast
  have "link_item lr \<notin> set (Links c)"
    if lr: "link_category_id lr \<notin> cat_id ` set (categories st)"
      and c: "c \<in> set (Categories d)" for lr c
  proof
    assume "link_item lr \<in> set (Links c)"
    from res[OF c this] obtain cr lr' where cr: "cr \<in> set (categories st)"
      and "link_category_id lr' = cat_id cr" and "link_item lr = link_item lr'"
      by blast
    then have "FormatInt (link_category_id lr) = FormatInt (cat_id cr)"
      by (simp add: link_item_def)
    then have "link_category_id lr = cat_id cr" by (rule FormatInt_inj)
    with cr lr show False by auto
  qed
  with res show ?thesis by blast
qed

theorem dashboard_links_resolved_witness:
  "getDashboardData quiet_env store_two = Inr view_two \<and>
   map (map URL \<circ> Links) (Categories view_two) = [[''v'', ''u''], []] \<and>
   \<lparr>link_id = 3, link_name = ''z'', link_url = ''w'', link_category_id = 7\<rparr> \<in> set (links store_two) \<and>
   link_item \<lparr>link_id = 3, link_name = ''z'', link_url = ''w'', link_category_id = 7\<rparr>
     \<notin> set (Links (Categories view_two ! 0)) \<and>
   (\<exists>cr \<in> set (categories store_two). \<exists>lr \<in> set (links store_two).
      link_category_id lr = cat_id cr \<and> dashboardCategory.ID (Categories view_two ! 0) = FormatInt (cat_id cr) \<and>
      dashboardCategory.Name (Categories view_two ! 0) = cat_name cr \<and>
      Links (Categories view_two ! 0) ! 0 = link_item lr)"
proof -
  note res = dashboard_links_resolved[OF getDashboardData_store_two]
  have c: "Categories view_two ! 0 \<in> set (Categories view_two)"
    and l: "Links (Categories view_two ! 0) ! 0 \<in> set (Links (Categories view_two ! 0))"
    by (simp_all add: view_two_def)
  have lr: "\<lparr>link_id = 3, link_name = ''z'', link_url = ''w'', link_category_id = 7\<rparr> \<in> set (links store_two)"
    and dangling: "link_category_id \<lparr>link_id = 3, link_name = ''z'', link_url = ''w'', link_category_id = 7\<rparr>
      \<notin> cat_id ` set (categories store_two)"
    by (simp_all add: store_two_def)
  from res c l have "\<exists>cr \<in> set (categories store_two). \<exists>lr \<in> set (links store_two).
      link_category_id lr = cat_id cr \<and> dashboardCategory.ID (Categories view_two ! 0) = FormatInt (cat_id cr) \<and>
      dashboardCategory.Name (Categories view_two ! 0) = cat_name cr \<and>
      Links (Categories view_two ! 0) ! 0 = link_item lr"
    by blast
  moreover from res lr dangling c
  have "link_item \<lparr>link_id = 3, link_name = ''z'', link_url = ''w'', link_category_id = 7\<rparr>
     \<notin> set (Links (Categories view_two ! 0))"
    by blast
  moreover have "map (map URL \<circ> Links) (Categories view_two) = [[''v'', ''u''], []]"
    by (simp add: view_two_def)
  ultimately show ?thesis
    using getDashboardData_store_two lr by blast
qed

section \<open>Categories of the view\<close>

text \<open>
  C6. When the two queries succeed the aggregator returns a view whose categories are,
  with their ids and names, exactly the stored category rows (as many of each), and a
  category that no link row refers to is in the view with the empty list of links.
\<close>

theorem dashboard_categories_complete:
  assumes "fault e QueryCategories = None" and "fault e QueryLinks = None"
  shows "\<exists>d. getDashboardData e st = Inr d \<and>
     mset (map (\<lambda>c. (dashboardCategory.ID c, dashboardCategory.Name c)) (Categories d)) =
       mset (map (\<lambda>r. (FormatInt (cat_id r), cat_name r)) (categories st)) \<and>
     (\<forall>cr \<in> set (categories st). \<exists>c \<in> set (Categories d).
        dashboardCategory.ID c = FormatInt (cat_id cr) \<and> dashboardCategory.Name c = cat_name cr \<and>
        (cat_id cr \<notin> link_category_id ` set (links st) \<longrightarrow> Links c = []))"
proof -
  from getDashboardData_total[OF assms] obtain d where d: "getDashboardData e st = Inr d" ..
  then obtain L where
    att: "attached (categories st) (links st) L" and
    view: "Categories d =
       map (\<lambda>c. c\<lparr>Links := sort_Slice (\<lambda>l. ToLower (unicode_lower e) (dashboardLink.Name l)) (Links c)\<rparr>)
         (sort_Slice (\<lambda>c. ToLower (unicode_lower e) (dashboardCategory.Name c))
            (heap L (slice_array L)))"
    by (rule getDashboardData_Inr)
  from att have skel: "map (\<lambda>c. (dashboardCategory.ID c, dashboardCategory.Name c))
        (heap L (slice_array L)) = map (\<lambda>r. (FormatInt (cat_id r), cat_name r)) (categories st)"
    unfolding attached_def by blast
  have "map (\<lambda>c. (dashboardCategory.ID c, dashboardCategory.Name c)) (Categories d) =
      map (\<lambda>c. (dashboardCategory.ID c, dashboardCategory.Name c))
        (sort_key (\<lambda>c. ToLower (unicode_lower e) (dashboardCategory.Name c)) (heap L (slice_array L)))"
    by (simp add: view sort_Slice_def comp_def)
  then have "mset (map (\<lambda>c. (dashboardCategory.ID c, dashboardCategory.Name c)) (Categories d)) =
      mset (map (\<lambda>c. (dashboardCategory.ID c, dashboardCategory.Name c)) (heap L (slice_array L)))"
    by simp
  then have ms: "mset (map (\<lambda>c. (dashboardCategory.ID c, dashboardCategory.Name c)) (Categories d)) =
       mset (map (\<lambda>r. (FormatInt (cat_id r), cat_name r)) (categories st))"
    by (simp only: skel)
  have "\<exists>c \<in> set (Categories d).
        dashboardCategory.ID c = FormatInt (cat_id cr) \<and> dashboardCategory.Name c = cat_name cr \<and>
        (cat_id cr \<notin> link_category_id ` set (links st) \<longrightarrow> Links c = [])"
    if cr: "cr \<in> set (categories st)" for cr
  proof -
    from cr have "(FormatInt (cat_id cr), cat_name cr) \<in>
        set_mset (mset (map (\<lambda>r. (FormatInt (cat_id r), cat_name r)) (categories st)))"
      by force
    then have "(FormatInt (cat_id cr), cat_name cr) \<in>
        set (map (\<lambda>c. (dashboardCategory.ID c, dashboardCategory.Name c)) (Categories d))"
      by (simp only: ms[symmetric] set_mset_mset)
    then obtain c where c: "c \<in> set (Categories d)"
      and id: "dashboardCategory.ID c = FormatInt (cat_id cr)"
      and nm: "dashboardCategory.Name c = cat_name cr"
      by auto
    have "Links c = []" if none: "cat_id cr \<notin> link_category_id ` set (links st)"
    proof (rule ccontr)
      assume "Links c \<noteq> []"
      then obtain l where l: "l \<in> set (Links c)" by (cases "Links c") auto
      from view_category[OF att view c] l obtain cr' :: category_row and lr :: link_row where
        id': "dashboardCategory.ID c = FormatInt (cat_id cr')" and lr: "lr \<in> set (links st)"
        and eq: "link_category_id lr = cat_id cr'"
        by blast
      from id id' have "FormatInt (cat_id cr) = FormatInt (cat_id cr')" by simp
      then have "cat_id cr = cat_id cr'" by (rule FormatInt_inj)
      with eq have "cat_id cr = link_category_id lr" by simp
      from this lr have "cat_id cr \<in> link_category_id ` set (links st)" by (rule image_eqI)
      with none show False ..
    qed
    with c id nm show ?thesis by blast
  qed
  with d ms show ?thesis by blast
qed

theorem dashboard_categories_complete_witness:
  "fault quiet_env QueryCategories = None \<and> fault quiet_env QueryLinks = None \<and>
   (\<exists>d. getDashboardData quiet_env store_two = Inr d \<and>
     mset (map (\<lambda>c. (dashboardCategory.ID c, dashboardCategory.Name c)) (Categories d)) =
       {#(''1'', ''Dev''), (''2'', ''art'')#} \<and>
     (\<exists>c \<in> set (Categories d).
        dashboardCategory.ID c = ''1'' \<and> dashboardCategory.Name c = ''Dev'' \<and> Links c = []))"
proof -
  have q: "fault quiet_env QueryCategories = None" "fault quiet_env QueryLinks = None"
    by (simp_all add: quiet_env_def)
  have f: "FormatInt 1 = ''1''" "FormatInt 2 = ''2''"
    by (simp_all add: FormatInt_def dec_digits.simps digit_char_def)
  from dashboard_categories_complete[OF q, of store_two] obtain d where
    d: "getDashboardData quiet_env store_two = Inr d"
    and ms: "mset (map (\<lambda>c. (dashboardCategory.ID c, dashboardCategory.Name c)) (Categories d)) =
       mset (map (\<lambda>r. (FormatInt (cat_id r), cat_name r)) (categories store_two))"
    and ex: "\<forall>cr \<in> set (categories store_two). \<exists>c \<in> set (Categories d).
        dashboardCategory.ID c = FormatInt (cat_id cr) \<and> dashboardCategory.Name c = cat_name cr \<and>
        (cat_id cr \<notin> link_category_id ` set (links store_two) \<longrightarrow> Links c = [])"
    by blast
  from ms have "mset (map (\<lambda>c. (dashboardCategory.ID c, dashboardCategory.Name c)) (Categories d)) =
       {#(''1'', ''Dev''), (''2'', ''art'')#}"
    by (simp add: store_two_def f)
  moreover from ex have "\<exists>c \<in> set (Categories d).
        dashboardCategory.ID c = ''1'' \<and> dashboardCategory.Name c = ''Dev'' \<and> Links c = []"
    by (simp add: store_two_def f)
  ultimately show ?thesis using q d by blast
qed

section \<open>White space and the message of the unique index\<close>

lemma space_width_rune:
  "r \<in> set white_space \<Longrightarrow> space_width unicode_spaces (r @ t) = length r"
  by (auto simp: white_space_def unicode_spaces_def space_width_def asciiSpace_def)

lemma trim_left_white:
  "set rs \<subseteq> set white_space \<Longrightarrow> trim_left unicode_spaces (concat rs) = []"
proof (induction rs)
  case Nil
  then show ?case by (simp add: trim_left.simps space_width_def)
next
  case (Cons r rs)
  then have r: "r \<in> set white_space" and "trim_left unicode_spaces (concat rs) = []"
    by simp_all
  moreover from r have "r \<noteq> []" by (auto simp: white_space_def unicode_spaces_def)
  ultimately show ?case
    by (subst trim_left.simps) (simp add: space_width_rune)
qed

lemma TrimSpace_white: "set rs \<subseteq> set white_space \<Longrightarrow> TrimSpace (concat rs) = []"
  by (simp add: TrimSpace_def TrimLeftSpace_def TrimRightSpace_def trim_left_white
      trim_left.simps[of _ "[]"] space_width_def)

lemma isASCII_unique_error: "isASCII unique_error"
  by code_simp

lemma Contains_unique_error: "Contains (map lower_byte unique_error) ''unique''"
  by code_simp

lemma unique_error_detected: "Contains (ToLower ul unique_error) ''unique''"
  by (simp add: ToLower_def isASCII_unique_error Contains_unique_error)

lemma quiet_env_faults [simp]: "fault quiet_env c = None"
  by (simp add: quiet_env_def)

lemma status_renderDashboard_quiet: "status (renderDashboard quiet_env st) = 200"
  using renderDashboard_ok[of quiet_env st] by auto

lemma status_http_Error [simp]: "status (http_Error msg code) = code"
  by (simp add: http_Error_def)

lemma status_renderDashboard_cases:
  "status (renderDashboard e st) = 200 \<or> status (renderDashboard e st) = 500"
  by (simp add: renderDashboard_def split: sum.splits option.splits)

lemma exec_delete_link_missing:
  assumes "fault e DeleteLink = None" and "i \<notin> link_id ` set (links st)"
  shows "exec_delete_link e i st = Inr st"
proof -
  from assms(2) have "filter (\<lambda>r. link_id r \<noteq> i) (links st) = links st"
    by (auto simp: filter_id_conv)
  with assms(1) show ?thesis by (simp add: exec_delete_link_def)
qed

lemma exec_update_link_missing:
  assumes "fault e UpdateLink = None" and "i \<notin> link_id ` set (links st)"
  shows "exec_update_link srv e name url c i st = Inr st"
proof -
  from assms(2) have "map (\<lambda>r. if link_id r = i
      then r\<lparr>link_name := name, link_url := url, link_category_id := c\<rparr> else r) (links st) =
      links st"
    by (intro map_idI) auto
  with assms show ?thesis by (simp add: exec_update_link_def)
qed

section \<open>A pointer taken before the slice moves\<close>

text \<open>
  C4. The view does not list every category's links regardless of the order in which the
  rows are read. With the categories read in the order \<open>Dev\<close>, \<open>art\<close>, the second
  \<open>append\<close> moves the slice to a new array and the pointer of \<open>Dev\<close> still points into
  the old one: the link \<open>Repo\<close> of \<open>Dev\<close> is appended to an item that is no longer in the
  slice, and the view shows \<open>Dev\<close> without it. With the same rows read in the order
  \<open>art\<close>, \<open>Dev\<close>, the pointer of \<open>Dev\<close> is taken after the move and the view lists the
  link.
\<close>

theorem dashboard_links_depend_on_read_order:
  "mset (categories store_first_rev) = mset (categories store_first) \<and>
   links store_first_rev = links store_first \<and>
   getDashboardData quiet_env store_first =
     Inr \<lparr>Categories =
        [\<lparr>dashboardCategory.ID = ''2'', dashboardCategory.Name = ''art'', Links = []\<rparr>,
         \<lparr>dashboardCategory.ID = ''1'', dashboardCategory.Name = ''Dev'', Links = []\<rparr>]\<rparr> \<and>
   getDashboardData quiet_env store_first_rev =
     Inr \<lparr>Categories =
        [\<lparr>dashboardCategory.ID = ''2'', dashboardCategory.Name = ''art'', Links = []\<rparr>,
         \<lparr>dashboardCategory.ID = ''1'', dashboardCategory.Name = ''Dev'',
          Links = [\<lparr>dashboardLink.ID = ''1'', CategoryID = ''1'',
                     dashboardLink.Name = ''Repo'', URL = ''https://x''\<rparr>]\<rparr>]\<rparr>"
proof -
  have low: "ToLower (\<lambda>s. s) ''Dev'' = ''dev''" "ToLower (\<lambda>s. s) ''art'' = ''art''"
    "ToLower (\<lambda>s. s) ''Repo'' = ''repo''"
    by code_simp+
  have rows: "mset (categories store_first_rev) = mset (categories store_first)"
    "links store_first_rev = links store_first"
    by (simp_all add: store_first_def store_first_rev_def)
  have fwd: "getDashboardData quiet_env store_first =
     Inr \<lparr>Categories =
        [\<lparr>dashboardCategory.ID = ''2'', dashboardCategory.Name = ''art'', Links = []\<rparr>,
         \<lparr>dashboardCategory.ID = ''1'', dashboardCategory.Name = ''Dev'', Links = []\<rparr>]\<rparr>"
    by (simp add: getDashboardData_def query_categories_def query_links_def quiet_env_def
        store_first_def make_loader_def load_category_def append_category_def
        slice_len_def attach_link_def category_item_def link_item_def sort_Slice_def Let_def
        FormatInt_def dec_digits.simps digit_char_def low)
  have bwd: "getDashboardData quiet_env store_first_rev =
     Inr \<lparr>Categories =
        [\<lparr>dashboardCategory.ID = ''2'', dashboardCategory.Name = ''art'', Links = []\<rparr>,
         \<lparr>dashboardCategory.ID = ''1'', dashboardCategory.Name = ''Dev'',
          Links = [\<lparr>dashboardLink.ID = ''1'', CategoryID = ''1'',
                     dashboardLink.Name = ''Repo'', URL = ''https://x''\<rparr>]\<rparr>]\<rparr>"
    by (simp add: getDashboardData_def query_categories_def query_links_def quiet_env_def
        store_first_rev_def make_loader_def load_category_def append_category_def
        slice_len_def attach_link_def category_item_def link_item_def sort_Slice_def Let_def
        FormatInt_def dec_digits.simps digit_char_def low)
  from rows fwd bwd show ?thesis by blast
qed

text \<open>
  The same holds whatever capacities the runtime chooses later, as long as the first
  \<open>append\<close> to the empty slice gives capacity 1 (as the Go runtime does for an element of
  this size): the view of \<open>store_first\<close> shows \<open>Dev\<close> without its link.
\<close>

lemma stale_pointer_any_growth:
  assumes "fault e QueryCategories = None" and "fault e QueryLinks = None"
    and "growslice e 0 \<le> 1"
  shows "\<exists>d. getDashboardData e store_first = Inr d \<and>
    (\<forall>c \<in> set (Categories d). Links c = [])"
proof -
  from assms(3) have cap: "max (Suc 0) (growslice e 0) = Suc 0" by simp
  show ?thesis
    by (simp add: getDashboardData_def query_categories_def query_links_def assms(1,2)
        store_first_def make_loader_def load_category_def append_category_def
        slice_len_def attach_link_def category_item_def link_item_def sort_Slice_def Let_def
        cap)
qed

section \<open>Creating a category\<close>

text \<open>
  C7. A \<open>POST\<close> to the create-category handler whose \<open>name\<close> field is empty after
  \<open>strings.TrimSpace\<close> (the field is absent, empty or white space only) is answered with
  status 400 and leaves the store as it was.
\<close>

theorem create_category_blank_name:
  assumes "Method r = ''POST''" and "Form r = Some f"
    and "TrimSpace (FormValue f ''name'') = []"
  shows "status (fst (handleCreateCategory srv e r st)) = 400 \<and>
    snd (handleCreateCategory srv e r st) = st"
  using assms by (simp add: handleCreateCategory_def http_Error_def)

theorem create_category_blank_name_witness:
  "TrimSpace (FormValue [(''name'', concat [[CHR 0x20], [CHR 0xC2, CHR 0xA0], [CHR 0x09]])] ''name'') = [] \<and>
   status (fst (handleCreateCategory main_server quiet_env
     \<lparr>Method = ''POST'', Path = ''/actions/categories/create'',
      Form = Some [(''name'', concat [[CHR 0x20], [CHR 0xC2, CHR 0xA0], [CHR 0x09]])]\<rparr> store_dev)) = 400 \<and>
   snd (handleCreateCategory main_server quiet_env
     \<lparr>Method = ''POST'', Path = ''/actions/categories/create'',
      Form = Some [(''name'', concat [[CHR 0x20], [CHR 0xC2, CHR 0xA0], [CHR 0x09]])]\<rparr> store_dev) = store_dev"
proof -
  have "TrimSpace (concat [[CHR 0x20], [CHR 0xC2, CHR 0xA0], [CHR 0x09]]) = []"
    by (rule TrimSpace_white) (simp add: white_space_def unicode_spaces_def)
  then have blank: "TrimSpace (FormValue [(''name'', concat [[CHR 0x20], [CHR 0xC2, CHR 0xA0], [CHR 0x09]])] ''name'') = []"
    by (simp add: FormValue_def)
  show ?thesis
    using create_category_blank_name[of "\<lparr>Method = ''POST'', Path = ''/actions/categories/create'',
      Form = Some [(''name'', concat [[CHR 0x20], [CHR 0xC2, CHR 0xA0], [CHR 0x09]])]\<rparr>"
      "[(''name'', concat [[CHR 0x20], [CHR 0xC2, CHR 0xA0], [CHR 0x09]])]" main_server quiet_env store_dev]
      blank
    by simp
qed

text \<open>
  C1, as the code has it. The unique index compares names byte by byte. A \<open>POST\<close> whose
  trimmed, non-empty name is the name of a stored category is answered with 409
  "category already exists" and leaves the store as it was, when the insert reaches the
  index; a trimmed name that is no stored name, also one that differs from a stored name
  only by letter case, is inserted as a new category.
\<close>

theorem create_category_duplicate:
  assumes "Method r = ''POST''" and "Form r = Some f"
    and "TrimSpace (FormValue f ''name'') = n" and "n \<noteq> []"
    and "fault e InsertCategory = None"
  shows "(n \<in> cat_name ` set (categories st) \<longrightarrow>
            handleCreateCategory srv e r st = (http_Error ''category already exists'' 409, st)) \<and>
         (n \<notin> cat_name ` set (categories st) \<longrightarrow>
            (\<exists>i. categories (snd (handleCreateCategory srv e r st)) =
                   categories st @ [\<lparr>cat_id = i, cat_name = n\<rparr>]))"
  using assms
  by (auto simp: handleCreateCategory_def exec_insert_category_def Let_def unique_error_detected)

theorem create_category_duplicate_witness:
  "handleCreateCategory main_server quiet_env
     \<lparr>Method = ''POST'', Path = ''/actions/categories/create'', Form = Some [(''name'', '' Dev '')]\<rparr>
     store_dev = (http_Error ''category already exists'' 409, store_dev) \<and>
   (\<exists>i. categories (snd (handleCreateCategory main_server quiet_env
     \<lparr>Method = ''POST'', Path = ''/actions/categories/create'', Form = Some [(''name'', ''dev'')]\<rparr>
     store_dev)) = categories store_dev @ [\<lparr>cat_id = i, cat_name = ''dev''\<rparr>])"
proof -
  have t1: "TrimSpace (FormValue [(''name'', '' Dev '')] ''name'') = ''Dev''" by code_simp
  have t2: "TrimSpace (FormValue [(''name'', ''dev'')] ''name'') = ''dev''" by code_simp
  have m1: "''Dev'' \<in> cat_name ` set (categories store_dev)"
    and m2: "''dev'' \<notin> cat_name ` set (categories store_dev)"
    by (simp_all add: store_dev_def)
  from create_category_duplicate[of
      "\<lparr>Method = ''POST'', Path = ''/actions/categories/create'', Form = Some [(''name'', '' Dev '')]\<rparr>"
      "[(''name'', '' Dev '')]" "''Dev''" quiet_env store_dev main_server] t1 m1
  have "handleCreateCategory main_server quiet_env
     \<lparr>Method = ''POST'', Path = ''/actions/categories/create'', Form = Some [(''name'', '' Dev '')]\<rparr>
     store_dev = (http_Error ''category already exists'' 409, store_dev)"
    by simp
  moreover from create_category_duplicate[of
      "\<lparr>Method = ''POST'', Path = ''/actions/categories/create'', Form = Some [(''name'', ''dev'')]\<rparr>"
      "[(''name'', ''dev'')]" "''dev''" quiet_env store_dev main_server] t2 m2
  have "\<exists>i. categories (snd (handleCreateCategory main_server quiet_env
     \<lparr>Method = ''POST'', Path = ''/actions/categories/create'', Form = Some [(''name'', ''dev'')]\<rparr>
     store_dev)) = categories store_dev @ [\<lparr>cat_id = i, cat_name = ''dev''\<rparr>]"
    by simp
  ultimately show ?thesis by blast
qed

text \<open>The claim C1 as stated fails: with the category \<open>Dev\<close> stored, creating \<open>dev\<close>
  is answered with 200 and both rows are stored.\<close>

theorem create_category_case_counterexample:
  "TrimSpace ''dev'' \<noteq> ''Dev'' \<and>
   ToLower (unicode_lower quiet_env) (TrimSpace ''dev'') = ToLower (unicode_lower quiet_env) ''Dev'' \<and>
   status (fst (handleCreateCategory main_server quiet_env
     \<lparr>Method = ''POST'', Path = ''/actions/categories/create'', Form = Some [(''name'', ''dev'')]\<rparr>
     store_dev)) = 200 \<and>
   categories (snd (handleCreateCategory main_server quiet_env
     \<lparr>Method = ''POST'', Path = ''/actions/categories/create'', Form = Some [(''name'', ''dev'')]\<rparr>
     store_dev)) = [\<lparr>cat_id = 1, cat_name = ''Dev''\<rparr>, \<lparr>cat_id = 2, cat_name = ''dev''\<rparr>]"
proof -
  have t: "TrimSpace ''dev'' = ''dev''" by code_simp
  have c1: "TrimSpace ''dev'' \<noteq> ''Dev''" by code_simp
  have c2: "ToLower (unicode_lower quiet_env) (TrimSpace ''dev'') =
      ToLower (unicode_lower quiet_env) ''Dev''"
    by code_simp
  have "handleCreateCategory main_server quiet_env
     \<lparr>Method = ''POST'', Path = ''/actions/categories/create'', Form = Some [(''name'', ''dev'')]\<rparr>
     store_dev =
     (renderDashboard quiet_env
        (store_dev\<lparr>categories := [\<lparr>cat_id = 1, cat_name = ''Dev''\<rparr>, \<lparr>cat_id = 2, cat_name = ''dev''\<rparr>],
           categories_seq := 2\<rparr>),
      store_dev\<lparr>categories := [\<lparr>cat_id = 1, cat_name = ''Dev''\<rparr>, \<lparr>cat_id = 2, cat_name = ''dev''\<rparr>],
           categories_seq := 2\<rparr>)"
    by (simp add: handleCreateCategory_def FormValue_def t exec_insert_category_def
        next_rowid_def store_dev_def Let_def)
  then have "status (fst (handleCreateCategory main_server quiet_env
     \<lparr>Method = ''POST'', Path = ''/actions/categories/create'', Form = Some [(''name'', ''dev'')]\<rparr>
     store_dev)) = 200"
    and "categories (snd (handleCreateCategory main_server quiet_env
     \<lparr>Method = ''POST'', Path = ''/actions/categories/create'', Form = Some [(''name'', ''dev'')]\<rparr>
     store_dev)) = [\<lparr>cat_id = 1, cat_name = ''Dev''\<rparr>, \<lparr>cat_id = 2, cat_name = ''dev''\<rparr>]"
    by (simp_all add: status_renderDashboard_quiet)
  with c1 c2 show ?thesis by blast
qed

section \<open>Writing a link\<close>

text \<open>
  C2. The schema declares \<open>FOREIGN KEY(category_id) REFERENCES categories(id)\<close>, but the
  connection of \<open>main\<close> does not enforce foreign keys: on the empty store, creating a
  link with category id 999 is answered with 200 and stores a link whose category is no
  row.
\<close>

theorem create_link_dangling_category:
  "handleCreateLink main_server quiet_env
     \<lparr>Method = ''POST'', Path = ''/actions/links/create'',
      Form = Some [(''name'', ''Repo''), (''url'', ''https://x''), (''category_id'', ''999'')]\<rparr>
     empty_store =
   (\<lparr>status = 200, body = Fragment \<lparr>Categories = []\<rparr>\<rparr>,
    \<lparr>categories = [],
     links = [\<lparr>link_id = 1, link_name = ''Repo'', link_url = ''https://x'', link_category_id = 999\<rparr>],
     categories_seq = 0, links_seq = 1\<rparr>)"
proof -
  have t: "TrimSpace ''Repo'' = ''Repo''" "TrimSpace ''https://x'' = ''https://x''"
    "TrimSpace ''999'' = ''999''"
    by code_simp+
  have p: "ParseInt ''999'' = Some 999"
    by (simp add: ParseInt_def digit_of_def)
  show ?thesis
    by (simp add: handleCreateLink_def FormValue_def t p exec_insert_link_def main_server_def
        next_rowid_def empty_store_def Let_def renderDashboard_def getDashboardData_def
        query_categories_def query_links_def make_loader_def attach_link_def sort_Slice_def)
qed

text \<open>On a connection that enforces foreign keys the same write is rejected.\<close>

lemma create_link_foreign_keys_enforced:
  assumes "db_foreign_keys srv" and "Method r = ''POST''" and "Form r = Some f"
    and "TrimSpace (FormValue f ''name'') \<noteq> []" and "TrimSpace (FormValue f ''url'') \<noteq> []"
    and "ParseInt (TrimSpace (FormValue f ''category_id'')) = Some c"
    and "c \<notin> cat_id ` set (categories st)"
  shows "handleCreateLink srv e r st = (http_Error ''failed to create link'' 500, st)"
proof -
  from assms(6) have "TrimSpace (FormValue f ''category_id'') \<noteq> []"
    by (auto simp: ParseInt_def)
  with assms show ?thesis
    by (auto simp: handleCreateLink_def exec_insert_link_def Let_def split: option.splits)
qed

text \<open>
  C8, as the code has it. A link create or update answered with 200 stores the \<open>url\<close>
  field with its leading and trailing white space removed by \<open>strings.TrimSpace\<close>, and
  otherwise as submitted; the same holds of the name.
\<close>

theorem link_url_trimmed:
  "(status (fst (handleCreateLink srv e r st)) = 200 \<longrightarrow>
      (\<exists>f i c. Form r = Some f \<and>
         ParseInt (TrimSpace (FormValue f ''category_id'')) = Some c \<and>
         links (snd (handleCreateLink srv e r st)) =
           links st @ [\<lparr>link_id = i, link_name = TrimSpace (FormValue f ''name''),
                         link_url = TrimSpace (FormValue f ''url''), link_category_id = c\<rparr>])) \<and>
   (status (fst (handleUpdateLink srv e r i st)) = 200 \<longrightarrow>
      (\<exists>f c. Form r = Some f \<and>
         ParseInt (TrimSpace (FormValue f ''category_id'')) = Some c \<and>
         links (snd (handleUpdateLink srv e r i st)) =
           map (\<lambda>x. if link_id x = i
                     then x\<lparr>link_name := TrimSpace (FormValue f ''name''),
                            link_url := TrimSpace (FormValue f ''url''),
                            link_category_id := c\<rparr>
                     else x) (links st)))"
proof (intro conjI impI)
  assume ok: "status (fst (handleCreateLink srv e r st)) = 200"
  then obtain f where f: "Form r = Some f" and m: "Method r = ''POST''"
    by (cases "Form r") (auto simp: handleCreateLink_def split: if_splits)
  from ok f m obtain c where c: "ParseInt (TrimSpace (FormValue f ''category_id'')) = Some c"
    and ne: "TrimSpace (FormValue f ''name'') \<noteq> []" "TrimSpace (FormValue f ''url'') \<noteq> []"
      "TrimSpace (FormValue f ''category_id'') \<noteq> []"
    by (cases "ParseInt (TrimSpace (FormValue f ''category_id''))")
      (auto simp: handleCreateLink_def Let_def split: if_splits)
  from ok f m c ne obtain st' where
    st': "exec_insert_link srv e (TrimSpace (FormValue f ''name'')) (TrimSpace (FormValue f ''url'')) c st = Inr st'"
    and res: "snd (handleCreateLink srv e r st) = st'"
    by (cases "exec_insert_link srv e (TrimSpace (FormValue f ''name'')) (TrimSpace (FormValue f ''url'')) c st")
      (auto simp: handleCreateLink_def Let_def)
  from st' have "\<exists>i. links st' = links st @
      [\<lparr>link_id = i, link_name = TrimSpace (FormValue f ''name''),
        link_url = TrimSpace (FormValue f ''url''), link_category_id = c\<rparr>]"
    by (auto simp: exec_insert_link_def Let_def split: option.splits if_splits)
  with f c res show "\<exists>f i c. Form r = Some f \<and>
         ParseInt (TrimSpace (FormValue f ''category_id'')) = Some c \<and>
         links (snd (handleCreateLink srv e r st)) =
           links st @ [\<lparr>link_id = i, link_name = TrimSpace (FormValue f ''name''),
                         link_url = TrimSpace (FormValue f ''url''), link_category_id = c\<rparr>]"
    by auto
next
  assume ok: "status (fst (handleUpdateLink srv e r i st)) = 200"
  then obtain f where f: "Form r = Some f"
    by (cases "Form r") (auto simp: handleUpdateLink_def)
  from ok f obtain c where c: "ParseInt (TrimSpace (FormValue f ''category_id'')) = Some c"
    and ne: "TrimSpace (FormValue f ''name'') \<noteq> []" "TrimSpace (FormValue f ''url'') \<noteq> []"
      "TrimSpace (FormValue f ''category_id'') \<noteq> []"
    by (cases "ParseInt (TrimSpace (FormValue f ''category_id''))")
      (auto simp: handleUpdateLink_def Let_def split: if_splits)
  from ok f c ne obtain st' where
    st': "exec_update_link srv e (TrimSpace (FormValue f ''name'')) (TrimSpace (FormValue f ''url'')) c i st = Inr st'"
    and res: "snd (handleUpdateLink srv e r i st) = st'"
    by (cases "exec_update_link srv e (TrimSpace (FormValue f ''name'')) (TrimSpace (FormValue f ''url'')) c i st")
      (auto simp: handleUpdateLink_def Let_def)
  from st' have "links st' = map (\<lambda>x. if link_id x = i
                     then x\<lparr>link_name := TrimSpace (FormValue f ''name''),
                            link_url := TrimSpace (FormValue f ''url''),
                            link_category_id := c\<rparr>
                     else x) (links st)"
    by (auto simp: exec_update_link_def split: option.splits if_splits)
  with f c res show "\<exists>f c. Form r = Some f \<and>
         ParseInt (TrimSpace (FormValue f ''category_id'')) = Some c \<and>
         links (snd (handleUpdateLink srv e r i st)) =
           map (\<lambda>x. if link_id x = i
                     then x\<lparr>link_name := TrimSpace (FormValue f ''name''),
                            link_url := TrimSpace (FormValue f ''url''),
                            link_category_id := c\<rparr>
                     else x) (links st)"
    by auto
qed

theorem link_url_trimmed_witness:
  "status (fst (handleCreateLink main_server quiet_env
     \<lparr>Method = ''POST'', Path = ''/actions/links/create'',
      Form = Some [(''name'', ''Blog''), (''url'', '' https://y ''), (''category_id'', ''1'')]\<rparr>
     store_dev)) = 200 \<and>
   links (snd (handleCreateLink main_server quiet_env
     \<lparr>Method = ''POST'', Path = ''/actions/links/create'',
      Form = Some [(''name'', ''Blog''), (''url'', '' https://y ''), (''category_id'', ''1'')]\<rparr>
     store_dev)) =
     links store_dev @
       [\<lparr>link_id = 2, link_name = ''Blog'', link_url = TrimSpace '' https://y '',
         link_category_id = 1\<rparr>] \<and>
   status (fst (handleUpdateLink main_server quiet_env
     \<lparr>Method = ''POST'', Path = ''/actions/links/1/update'',
      Form = Some [(''name'', ''Repo2''), (''url'', ''https://z  ''), (''category_id'', ''1'')]\<rparr>
     1 store_dev)) = 200 \<and>
   links (snd (handleUpdateLink main_server quiet_env
     \<lparr>Method = ''POST'', Path = ''/actions/links/1/update'',
      Form = Some [(''name'', ''Repo2''), (''url'', ''https://z  ''), (''category_id'', ''1'')]\<rparr>
     1 store_dev)) =
     [\<lparr>link_id = 1, link_name = ''Repo2'', link_url = TrimSpace ''https://z  '',
       link_category_id = 1\<rparr>]"
proof -
  let ?rc = "\<lparr>Method = ''POST'', Path = ''/actions/links/create'',
      Form = Some [(''name'', ''Blog''), (''url'', '' https://y ''), (''category_id'', ''1'')]\<rparr>"
  let ?ru = "\<lparr>Method = ''POST'', Path = ''/actions/links/1/update'',
      Form = Some [(''name'', ''Repo2''), (''url'', ''https://z  ''), (''category_id'', ''1'')]\<rparr>"
  have t: "TrimSpace ''Blog'' = ''Blog''" "TrimSpace '' https://y '' = ''https://y''"
    "TrimSpace ''1'' = ''1''" "TrimSpace ''Repo2'' = ''Repo2''"
    "TrimSpace ''https://z  '' = ''https://z''"
    by code_simp+
  have p: "ParseInt ''1'' = Some 1" by (simp add: ParseInt_def digit_of_def)
  have "\<exists>s. handleCreateLink main_server quiet_env ?rc store_dev = (renderDashboard quiet_env s, s)"
    by (simp add: handleCreateLink_def FormValue_def t p exec_insert_link_def main_server_def Let_def)
  then have sc: "status (fst (handleCreateLink main_server quiet_env ?rc store_dev)) = 200"
    by (auto simp: status_renderDashboard_quiet)
  have "\<exists>s. handleUpdateLink main_server quiet_env ?ru 1 store_dev = (renderDashboard quiet_env s, s)"
    by (simp add: handleUpdateLink_def FormValue_def t p exec_update_link_def main_server_def Let_def)
  then have su: "status (fst (handleUpdateLink main_server quiet_env ?ru 1 store_dev)) = 200"
    by (auto simp: status_renderDashboard_quiet)
  from link_url_trimmed[where srv = main_server and e = quiet_env and r = ?rc and st = store_dev] sc
  obtain i where "links (snd (handleCreateLink main_server quiet_env ?rc store_dev)) =
      links store_dev @ [\<lparr>link_id = i, link_name = ''Blog'', link_url = ''https://y'',
        link_category_id = 1\<rparr>]"
    by (auto simp: FormValue_def t p)
  moreover have "map link_id (links (snd (handleCreateLink main_server quiet_env ?rc store_dev))) = [1, 2]"
    by (simp add: handleCreateLink_def FormValue_def t p exec_insert_link_def main_server_def
        Let_def next_rowid_def store_dev_def)
  ultimately have lc: "links (snd (handleCreateLink main_server quiet_env ?rc store_dev)) =
      links store_dev @ [\<lparr>link_id = 2, link_name = ''Blog'', link_url = TrimSpace '' https://y '',
        link_category_id = 1\<rparr>]"
    by (auto simp: store_dev_def t)
  from link_url_trimmed[where srv = main_server and e = quiet_env and r = ?ru and st = store_dev
      and i = 1] su
  have lu: "links (snd (handleUpdateLink main_server quiet_env ?ru 1 store_dev)) =
     [\<lparr>link_id = 1, link_name = ''Repo2'', link_url = TrimSpace ''https://z  '',
       link_category_id = 1\<rparr>]"
    by (auto simp: FormValue_def t p store_dev_def)
  from sc lc su lu show ?thesis by blast
qed

text \<open>The claim C8 as stated fails: the url \<open>" https://y "\<close> is stored as
  \<open>"https://y"\<close>.\<close>

theorem link_url_verbatim_counterexample:
  "FormValue [(''name'', ''Blog''), (''url'', '' https://y ''), (''category_id'', ''1'')] ''url'' =
     '' https://y '' \<and>
   status (fst (handleCreateLink main_server quiet_env
     \<lparr>Method = ''POST'', Path = ''/actions/links/create'',
      Form = Some [(''name'', ''Blog''), (''url'', '' https://y ''), (''category_id'', ''1'')]\<rparr>
     store_dev)) = 200 \<and>
   map link_url (links (snd (handleCreateLink main_server quiet_env
     \<lparr>Method = ''POST'', Path = ''/actions/links/create'',
      Form = Some [(''name'', ''Blog''), (''url'', '' https://y ''), (''category_id'', ''1'')]\<rparr>
     store_dev))) = [''https://x'', ''https://y'']"
proof -
  have t: "TrimSpace ''Blog'' = ''Blog''" "TrimSpace '' https://y '' = ''https://y''"
    "TrimSpace ''1'' = ''1''"
    by code_simp+
  have p: "ParseInt ''1'' = Some 1" by (simp add: ParseInt_def digit_of_def)
  have "handleCreateLink main_server quiet_env
     \<lparr>Method = ''POST'', Path = ''/actions/links/create'',
      Form = Some [(''name'', ''Blog''), (''url'', '' https://y ''), (''category_id'', ''1'')]\<rparr>
     store_dev =
     (renderDashboard quiet_env
        (store_dev\<lparr>links := links store_dev @
           [\<lparr>link_id = 2, link_name = ''Blog'', link_url = ''https://y'', link_category_id = 1\<rparr>],
           links_seq := 2\<rparr>),
      store_dev\<lparr>links := links store_dev @
           [\<lparr>link_id = 2, link_name = ''Blog'', link_url = ''https://y'', link_category_id = 1\<rparr>],
           links_seq := 2\<rparr>)"
    by (simp add: handleCreateLink_def FormValue_def t p exec_insert_link_def main_server_def
        next_rowid_def store_dev_def Let_def)
  then show ?thesis
    by (simp add: status_renderDashboard_quiet FormValue_def store_dev_def)
qed

section \<open>Deleting a category\<close>

text \<open>
  C3. For a \<open>POST\<close> to \<open>/actions/categories/{c}/delete\<close> with a numeric \<open>c\<close>: when the
  response is 200, and whenever the transaction runs through, the store has lost exactly
  the category rows of id \<open>c\<close> and the link rows of category id \<open>c\<close>; when the
  transaction cannot begin or either deletion fails, the response is 500 and the store is
  unchanged.
\<close>

theorem delete_category_atomic:
  assumes "Method r = ''POST''" and "Path r = ''/actions/categories/'' @ s @ ''/delete''"
    and "ParseInt s = Some c"
  shows "(status (fst (handleCategoryActions srv e r st)) = 200 \<longrightarrow>
            snd (handleCategoryActions srv e r st) =
              st\<lparr>categories := filter (\<lambda>x. cat_id x \<noteq> c) (categories st),
                 links := filter (\<lambda>x. link_category_id x \<noteq> c) (links st)\<rparr>) \<and>
         (fault e BeginTx = None \<and> fault e DeleteLinksOfCategory = None \<and>
          fault e DeleteCategory = None \<and> fault e CommitTx = None \<longrightarrow>
            snd (handleCategoryActions srv e r st) =
              st\<lparr>categories := filter (\<lambda>x. cat_id x \<noteq> c) (categories st),
                 links := filter (\<lambda>x. link_category_id x \<noteq> c) (links st)\<rparr>) \<and>
         (fault e BeginTx \<noteq> None \<or> fault e DeleteLinksOfCategory \<noteq> None \<or>
          fault e DeleteCategory \<noteq> None \<longrightarrow>
            snd (handleCategoryActions srv e r st) = st \<and>
            status (fst (handleCategoryActions srv e r st)) = 500)"
proof -
  have parts: "Split (Trim (TrimPrefix (Path r) ''/actions/categories/'') CHR ''/'') CHR ''/'' =
      [s, ''delete'']"
    unfolding assms(2) by (rule action_path_parts[OF assms(3)]) simp_all
  have run: "handleCategoryActions srv e r st =
    (case fault e BeginTx of
       Some err \<Rightarrow> (http_Error ''failed to delete category'' 500, st)
     | None \<Rightarrow>
         (case exec_delete_links_of_category e c st of
            Inl err \<Rightarrow> (http_Error ''failed to delete category links'' 500, st)
          | Inr st1 \<Rightarrow>
              (case exec_delete_category srv e c st1 of
                 Inl err \<Rightarrow> (http_Error ''failed to delete category'' 500, st)
               | Inr st2 \<Rightarrow>
                   (case fault e CommitTx of
                      Some err \<Rightarrow> (http_Error ''failed to delete category'' 500, st)
                    | None \<Rightarrow> (renderDashboard e st2, st2)))))"
    by (simp add: handleCategoryActions_def assms(1,3) parts Let_def)
  show ?thesis
    unfolding run
    by (auto simp: exec_delete_links_of_category_def exec_delete_category_def
        split: option.splits)
qed

theorem delete_category_atomic_witness:
  "snd (handleCategoryActions main_server quiet_env
     \<lparr>Method = ''POST'', Path = ''/actions/categories/1/delete'', Form = Some []\<rparr> store_dev) =
     \<lparr>categories = [], links = [], categories_seq = 1, links_seq = 1\<rparr> \<and>
   status (fst (handleCategoryActions main_server quiet_env
     \<lparr>Method = ''POST'', Path = ''/actions/categories/1/delete'', Form = Some []\<rparr> store_dev)) = 200 \<and>
   snd (handleCategoryActions main_server (failing_env DeleteCategory)
     \<lparr>Method = ''POST'', Path = ''/actions/categories/1/delete'', Form = Some []\<rparr> store_dev) =
     store_dev \<and>
   status (fst (handleCategoryActions main_server (failing_env DeleteCategory)
     \<lparr>Method = ''POST'', Path = ''/actions/categories/1/delete'', Form = Some []\<rparr> store_dev)) = 500"
proof -
  have p: "ParseInt ''1'' = Some 1" by (simp add: ParseInt_def digit_of_def)
  note ok = delete_category_atomic[where
      r = "\<lparr>Method = ''POST'', Path = ''/actions/categories/1/delete'', Form = Some []\<rparr>"
      and s = "''1''" and c = 1 and e = quiet_env and srv = main_server and st = store_dev]
  note ko = delete_category_atomic[where
      r = "\<lparr>Method = ''POST'', Path = ''/actions/categories/1/delete'', Form = Some []\<rparr>"
      and s = "''1''" and c = 1 and e = "failing_env DeleteCategory" and srv = main_server
      and st = store_dev]
  from ok p have a: "snd (handleCategoryActions main_server quiet_env
     \<lparr>Method = ''POST'', Path = ''/actions/categories/1/delete'', Form = Some []\<rparr> store_dev) =
     \<lparr>categories = [], links = [], categories_seq = 1, links_seq = 1\<rparr>"
    by (simp add: store_dev_def)
  then have "handleCategoryActions main_server quiet_env
     \<lparr>Method = ''POST'', Path = ''/actions/categories/1/delete'', Form = Some []\<rparr> store_dev =
     (renderDashboard quiet_env \<lparr>categories = [], links = [], categories_seq = 1, links_seq = 1\<rparr>,
      \<lparr>categories = [], links = [], categories_seq = 1, links_seq = 1\<rparr>)"
    by (simp add: handleCategoryActions_def Trim_def TrimPrefix_def p Let_def
        exec_delete_links_of_category_def exec_delete_category_def store_dev_def)
  then have b: "status (fst (handleCategoryActions main_server quiet_env
     \<lparr>Method = ''POST'', Path = ''/actions/categories/1/delete'', Form = Some []\<rparr> store_dev)) = 200"
    by (simp add: status_renderDashboard_quiet)
  from ko p have "snd (handleCategoryActions main_server (failing_env DeleteCategory)
     \<lparr>Method = ''POST'', Path = ''/actions/categories/1/delete'', Form = Some []\<rparr> store_dev) =
     store_dev \<and>
   status (fst (handleCategoryActions main_server (failing_env DeleteCategory)
     \<lparr>Method = ''POST'', Path = ''/actions/categories/1/delete'', Form = Some []\<rparr> store_dev)) = 500"
    by (simp add: failing_env_def)
  with a b show ?thesis by blast
qed

section \<open>Methods\<close>

text \<open>
  C9, as the code has it. Every registered handler but the one of \<open>/health\<close> answers a
  request whose method is not the route's with 405 "method not allowed" and leaves the
  store as it was; \<open>handleHealth\<close> does not look at the request and answers every method
  with 200.
\<close>

theorem wrong_method_not_allowed:
  "(rt \<noteq> Health \<and> Method r \<noteq> route_method rt \<longrightarrow>
      handler rt srv e r st = (http_Error ''method not allowed'' 405, st) \<and>
      status (fst (handler rt srv e r st)) = 405) \<and>
   handler Health srv e r st = (\<lparr>status = 200, body = Plain ''ok''\<rparr>, st)"
  by (cases rt)
    (simp_all add: handleHealth_def handleDashboard_def handleCreateCategory_def
      handleCategoryActions_def handleCreateLink_def handleLinkActions_def http_Error_def)

theorem wrong_method_not_allowed_witness:
  "LinksActions \<noteq> Health \<and> ''GET'' \<noteq> route_method LinksActions \<and>
   handler LinksActions main_server quiet_env
     \<lparr>Method = ''GET'', Path = ''/actions/links/1/delete'', Form = Some []\<rparr> store_dev =
     (http_Error ''method not allowed'' 405, store_dev) \<and>
   status (fst (handler LinksActions main_server quiet_env
     \<lparr>Method = ''GET'', Path = ''/actions/links/1/delete'', Form = Some []\<rparr> store_dev)) = 405 \<and>
   handler Health main_server quiet_env
     \<lparr>Method = ''DELETE'', Path = ''/health'', Form = None\<rparr> store_dev =
     (\<lparr>status = 200, body = Plain ''ok''\<rparr>, store_dev)"
proof -
  from wrong_method_not_allowed[of LinksActions
      "\<lparr>Method = ''GET'', Path = ''/actions/links/1/delete'', Form = Some []\<rparr>"
      main_server quiet_env store_dev]
  have "handler LinksActions main_server quiet_env
     \<lparr>Method = ''GET'', Path = ''/actions/links/1/delete'', Form = Some []\<rparr> store_dev =
     (http_Error ''method not allowed'' 405, store_dev)"
    and "status (fst (handler LinksActions main_server quiet_env
     \<lparr>Method = ''GET'', Path = ''/actions/links/1/delete'', Form = Some []\<rparr> store_dev)) = 405"
    by simp_all
  moreover from wrong_method_not_allowed[of LinksActions
      "\<lparr>Method = ''DELETE'', Path = ''/health'', Form = None\<rparr>"
      main_server quiet_env store_dev]
  have "handler Health main_server quiet_env
     \<lparr>Method = ''DELETE'', Path = ''/health'', Form = None\<rparr> store_dev =
     (\<lparr>status = 200, body = Plain ''ok''\<rparr>, store_dev)"
    by blast
  ultimately show ?thesis by simp
qed

text \<open>The claim C9 as stated fails at \<open>/health\<close>: a \<open>POST\<close> is answered with 200.\<close>

theorem health_any_method_counterexample:
  "''POST'' \<noteq> route_method Health \<and>
   status (fst (handler Health main_server quiet_env
     \<lparr>Method = ''POST'', Path = ''/health'', Form = Some []\<rparr> store_dev)) = 200"
  by (simp add: handleHealth_def)

section \<open>Deleting and updating a link that is not stored\<close>

text \<open>
  C10. A \<open>POST\<close> to \<open>/actions/links/{id}/delete\<close> or \<open>/actions/links/{id}/update\<close> with
  a numeric id is never answered with 404. When no stored link has the id and the
  database and the template answer, the delete, and the update with valid fields, are
  answered with 200 and the dashboard of the store, and the store is left as it was.
\<close>

theorem missing_link_no_not_found:
  assumes "Method r = ''POST''" and "ParseInt s = Some i"
    and "Path r = ''/actions/links/'' @ s @ ''/delete'' \<or>
         Path r = ''/actions/links/'' @ s @ ''/update''"
  shows "status (fst (handleLinkActions srv e r st)) \<noteq> 404 \<and>
         (i \<notin> link_id ` set (links st) \<and>
          fault e DeleteLink = None \<and> fault e UpdateLink = None \<and>
          fault e QueryCategories = None \<and> fault e QueryLinks = None \<and>
          fault e ExecuteTemplate = None \<and>
          (Path r = ''/actions/links/'' @ s @ ''/update'' \<longrightarrow>
             (\<exists>f c. Form r = Some f \<and>
                TrimSpace (FormValue f ''name'') \<noteq> [] \<and> TrimSpace (FormValue f ''url'') \<noteq> [] \<and>
                ParseInt (TrimSpace (FormValue f ''category_id'')) = Some c)) \<longrightarrow>
            (\<exists>d. getDashboardData e st = Inr d \<and>
               handleLinkActions srv e r st = (\<lparr>status = 200, body = Fragment d\<rparr>, st)))"
proof -
  have del_parts: "Split (Trim (TrimPrefix (Path r) ''/actions/links/'') CHR ''/'') CHR ''/'' =
        [s, ''delete'']"
    if pth: "Path r = ''/actions/links/'' @ s @ ''/delete''"
    unfolding pth by (rule action_path_parts[OF assms(2)]) simp_all
  have upd_parts: "Split (Trim (TrimPrefix (Path r) ''/actions/links/'') CHR ''/'') CHR ''/'' =
        [s, ''update'']"
    if pth: "Path r = ''/actions/links/'' @ s @ ''/update''"
    unfolding pth by (rule action_path_parts[OF assms(2)]) simp_all
  from assms(3) have run: "handleLinkActions srv e r st = handleDeleteLink srv e r i st \<or>
      handleLinkActions srv e r st = handleUpdateLink srv e r i st"
  proof
    assume pth: "Path r = ''/actions/links/'' @ s @ ''/delete''"
    have "handleLinkActions srv e r st = handleDeleteLink srv e r i st"
      by (simp add: handleLinkActions_def assms(1,2) del_parts[OF pth] Let_def)
    then show ?thesis ..
  next
    assume pth: "Path r = ''/actions/links/'' @ s @ ''/update''"
    have "handleLinkActions srv e r st = handleUpdateLink srv e r i st"
      by (simp add: handleLinkActions_def assms(1,2) upd_parts[OF pth] Let_def)
    then show ?thesis ..
  qed
  have rs: "status (renderDashboard e x) \<noteq> 404" for x
    by (simp add: renderDashboard_def split: sum.splits option.splits)
  have "status (fst (handleDeleteLink srv e r i st)) \<noteq> 404"
    by (simp add: handleDeleteLink_def rs split: sum.splits)
  moreover have "status (fst (handleUpdateLink srv e r i st)) \<noteq> 404"
    by (simp add: handleUpdateLink_def Let_def rs split: sum.splits option.splits)
  ultimately have nf: "status (fst (handleLinkActions srv e r st)) \<noteq> 404"
    using run by auto
  have ok: "\<exists>d. getDashboardData e st = Inr d \<and>
               handleLinkActions srv e r st = (\<lparr>status = 200, body = Fragment d\<rparr>, st)"
    if miss: "i \<notin> link_id ` set (links st)"
      and fd: "fault e DeleteLink = None" and fu: "fault e UpdateLink = None"
      and fq: "fault e QueryCategories = None" "fault e QueryLinks = None"
      and ft: "fault e ExecuteTemplate = None"
      and valid: "Path r = ''/actions/links/'' @ s @ ''/update'' \<longrightarrow>
             (\<exists>f c. Form r = Some f \<and>
                TrimSpace (FormValue f ''name'') \<noteq> [] \<and> TrimSpace (FormValue f ''url'') \<noteq> [] \<and>
                ParseInt (TrimSpace (FormValue f ''category_id'')) = Some c)"
  proof -
    from renderDashboard_ok[OF fq ft] obtain d where d: "getDashboardData e st = Inr d"
      and rd: "renderDashboard e st = \<lparr>status = 200, body = Fragment d\<rparr>"
      by blast
    from assms(3) have "handleLinkActions srv e r st = (\<lparr>status = 200, body = Fragment d\<rparr>, st)"
    proof
      assume pth: "Path r = ''/actions/links/'' @ s @ ''/delete''"
      show ?thesis
        by (simp add: handleLinkActions_def assms(1,2) del_parts[OF pth] Let_def
            handleDeleteLink_def exec_delete_link_missing[OF fd miss] rd)
    next
      assume pth: "Path r = ''/actions/links/'' @ s @ ''/update''"
      with valid obtain f c where f: "Form r = Some f"
        and ne: "TrimSpace (FormValue f ''name'') \<noteq> []" "TrimSpace (FormValue f ''url'') \<noteq> []"
        and c: "ParseInt (TrimSpace (FormValue f ''category_id'')) = Some c"
        by blast
      from c have ne3: "TrimSpace (FormValue f ''category_id'') \<noteq> []"
        by (auto simp: ParseInt_def)
      show ?thesis
        by (simp add: handleLinkActions_def assms(1,2) upd_parts[OF pth] Let_def
            handleUpdateLink_def f ne ne3 c exec_update_link_missing[OF fu miss] rd)
    qed
    with d show ?thesis by blast
  qed
  from nf ok show ?thesis by blast
qed

theorem missing_link_no_not_found_witness:
  "handleLinkActions main_server quiet_env
     \<lparr>Method = ''POST'', Path = ''/actions/links/42/delete'', Form = Some []\<rparr> store_dev =
     (renderDashboard quiet_env store_dev, store_dev) \<and>
   handleLinkActions main_server quiet_env
     \<lparr>Method = ''POST'', Path = ''/actions/links/42/update'',
      Form = Some [(''name'', ''Repo2''), (''url'', ''https://z''), (''category_id'', ''5'')]\<rparr> store_dev =
     (renderDashboard quiet_env store_dev, store_dev) \<and>
   status (renderDashboard quiet_env store_dev) = 200 \<and>
   status (fst (handleLinkActions main_server (failing_env DeleteLink)
     \<lparr>Method = ''POST'', Path = ''/actions/links/42/delete'', Form = Some []\<rparr> store_dev)) \<noteq> 404"
proof -
  let ?rd = "\<lparr>Method = ''POST'', Path = ''/actions/links/42/delete'', Form = Some []\<rparr>"
  let ?ru = "\<lparr>Method = ''POST'', Path = ''/actions/links/42/update'',
      Form = Some [(''name'', ''Repo2''), (''url'', ''https://z''), (''category_id'', ''5'')]\<rparr>"
  let ?f = "[(''name'', ''Repo2''), (''url'', ''https://z''), (''category_id'', ''5'')]"
  have p: "ParseInt ''42'' = Some 42" by (simp add: ParseInt_def digit_of_def)
  have m: "42 \<notin> link_id ` set (links store_dev)" by (simp add: store_dev_def)
  have t: "TrimSpace (FormValue ?f ''name'') = ''Repo2''" "TrimSpace (FormValue ?f ''url'') = ''https://z''"
    "TrimSpace (FormValue ?f ''category_id'') = ''5''"
    by code_simp+
  have p5: "ParseInt ''5'' = Some 5" by (simp add: ParseInt_def digit_of_def)
  from missing_link_no_not_found[where r = ?rd and s = "''42''" and i = 42 and st = store_dev
      and e = quiet_env and srv = main_server] p m
  obtain d where "getDashboardData quiet_env store_dev = Inr d"
    and "handleLinkActions main_server quiet_env ?rd store_dev = (\<lparr>status = 200, body = Fragment d\<rparr>, store_dev)"
    by auto
  then have a: "handleLinkActions main_server quiet_env ?rd store_dev =
      (renderDashboard quiet_env store_dev, store_dev)"
    by (simp add: renderDashboard_def)
  from missing_link_no_not_found[where r = ?ru and s = "''42''" and i = 42 and st = store_dev
      and e = quiet_env and srv = main_server] p m t p5
  obtain d where "getDashboardData quiet_env store_dev = Inr d"
    and "handleLinkActions main_server quiet_env ?ru store_dev = (\<lparr>status = 200, body = Fragment d\<rparr>, store_dev)"
    by auto
  then have b: "handleLinkActions main_server quiet_env ?ru store_dev =
      (renderDashboard quiet_env store_dev, store_dev)"
    by (simp add: renderDashboard_def)
  from missing_link_no_not_found[where r = ?rd and s = "''42''" and i = 42 and st = store_dev
      and e = "failing_env DeleteLink" and srv = main_server] p
  have c: "status (fst (handleLinkActions main_server (failing_env DeleteLink) ?rd store_dev)) \<noteq> 404"
    by simp
  from a b c status_renderDashboard_quiet[of store_dev] show ?thesis by blast
qed

end
